theory Spec2Isabelle
  imports Complex_Main
begin

section \<open>JavaScript numbers\<close>

text \<open>
  A JavaScript number is an IEEE 754 binary64 value: a real number with a 53-bit
  significand and a binary exponent between -1022 and 1023 (subnormal numbers
  included), or one of \<^verbatim>\<open>NaN\<close>, \<^verbatim>\<open>Infinity\<close> and \<^verbatim>\<open>-Infinity\<close>. Every arithmetic
  operation returns the exact result rounded to the nearest such value, ties going to
  the even significand, and overflowing to an infinity. The sign of zero is not
  modelled: the program never divides by a negative zero (its only divisor is a product
  of two square roots) and prints no zero with a sign.
\<close>

datatype jsnum = Fin real | NaN | PosInf | NegInf

text \<open>The nearest integer, the even one of two equally near.\<close>

definition round_even :: "real \<Rightarrow> int" where
  "round_even r =
     (let f = \<lfloor>r\<rfloor>; d = r - of_int f
      in if d < 1 / 2 then f else if 1 / 2 < d then f + 1 else if even f then f else f + 1)"

text \<open>
  The binary64 value of an exact result \<open>x\<close>: with \<open>e\<close> the binary exponent of \<open>x\<close>,
  not below -1022, \<open>x\<close> is rounded to a multiple of \<open>2 powi (e - 52)\<close>; a rounded
  magnitude of \<open>2 ^ 1024\<close> is an overflow.
\<close>

definition fl :: "real \<Rightarrow> jsnum" where
  "fl x =
     (if x = 0 then Fin 0
      else
        (let e = max \<lfloor>log 2 \<bar>x\<bar>\<rfloor> (- 1022);
             ulp = 2 powi (e - 52);
             y = of_int (round_even (x / ulp)) * ulp
         in if 2 ^ 1024 \<le> \<bar>y\<bar> then (if 0 < x then PosInf else NegInf) else Fin y))"

text \<open>The operators \<^verbatim>\<open>a + b\<close>, \<^verbatim>\<open>a * b\<close>, \<^verbatim>\<open>a / b\<close> and \<^verbatim>\<open>Math.sqrt(a)\<close>.\<close>

fun fadd :: "jsnum \<Rightarrow> jsnum \<Rightarrow> jsnum" where
  "fadd (Fin a) (Fin b) = fl (a + b)"
| "fadd NaN _ = NaN"
| "fadd _ NaN = NaN"
| "fadd PosInf NegInf = NaN"
| "fadd NegInf PosInf = NaN"
| "fadd PosInf _ = PosInf"
| "fadd _ PosInf = PosInf"
| "fadd NegInf _ = NegInf"
| "fadd _ NegInf = NegInf"

fun positive :: "jsnum \<Rightarrow> bool" where
  "positive (Fin a) = (0 < a)"
| "positive PosInf = True"
| "positive _ = False"

fun fmul :: "jsnum \<Rightarrow> jsnum \<Rightarrow> jsnum" where
  "fmul (Fin a) (Fin b) = fl (a * b)"
| "fmul NaN _ = NaN"
| "fmul _ NaN = NaN"
| "fmul x y =
     (if x = Fin 0 \<or> y = Fin 0 then NaN
      else if positive x = positive y then PosInf else NegInf)"

fun fdiv :: "jsnum \<Rightarrow> jsnum \<Rightarrow> jsnum" where
  "fdiv (Fin a) (Fin b) =
     (if b = 0 then (if a = 0 then NaN else if 0 < a then PosInf else NegInf)
      else fl (a / b))"
| "fdiv NaN _ = NaN"
| "fdiv _ NaN = NaN"
| "fdiv (Fin a) _ = Fin 0"
| "fdiv x (Fin b) = (if positive x = (0 \<le> b) then PosInf else NegInf)"
| "fdiv _ _ = NaN"

fun fsqrt :: "jsnum \<Rightarrow> jsnum" where
  "fsqrt (Fin a) = (if a < 0 then NaN else fl (sqrt a))"
| "fsqrt PosInf = PosInf"
| "fsqrt _ = NaN"

text \<open>The operator \<^verbatim>\<open>a > b\<close>: every comparison with \<^verbatim>\<open>NaN\<close> is false.\<close>

fun js_gt :: "jsnum \<Rightarrow> jsnum \<Rightarrow> bool" where
  "js_gt NaN _ = False"
| "js_gt _ NaN = False"
| "js_gt (Fin a) (Fin b) = (b < a)"
| "js_gt PosInf PosInf = False"
| "js_gt PosInf _ = True"
| "js_gt _ PosInf = False"
| "js_gt NegInf _ = False"
| "js_gt (Fin a) NegInf = True"

text \<open>
  Decimal digits of a natural number, and \<^verbatim>\<open>Number.prototype.toFixed(1)\<close>: the sign is
  split off, the exact value of the magnitude is rounded to the nearest tenth (the
  larger one on a tie) and printed with one digit after the point. Magnitudes of
  \<^verbatim>\<open>1e21\<close> and more, which JavaScript prints in exponent notation, do not occur in a
  percentage.
\<close>

definition digit :: "nat \<Rightarrow> char" where
  "digit d = ''0123456789'' ! d"

fun digits :: "nat \<Rightarrow> string" where
  "digits n = (if n < 10 then [digit n] else digits (n div 10) @ [digit (n mod 10)])"

declare digits.simps [simp del]

definition toFixed1 :: "jsnum \<Rightarrow> string" where
  "toFixed1 v =
     (case v of
        NaN \<Rightarrow> ''NaN''
      | PosInf \<Rightarrow> ''Infinity''
      | NegInf \<Rightarrow> ''-Infinity''
      | Fin x \<Rightarrow>
          (let n = nat \<lfloor>\<bar>x\<bar> * 10 + 1 / 2\<rfloor>
           in (if x < 0 then ''-'' else '''') @ digits (n div 10) @ ''.'' @ digits (n mod 10)))"

section \<open>Data model (biometric-utils.ts, data-store.ts)\<close>

record BiometricData =
  faceHash :: string
  fingerprintHash :: string
  faceEmbedding :: "real list option"
  timestamp :: int

record Checkpoints =
  security :: bool
  immigration :: bool
  boarding :: bool

text \<open>The field \<^verbatim>\<open>id\<close> of a passenger is \<open>id_p\<close> here, that of a log entry \<open>id_l\<close>.\<close>

record PassengerData =
  id_p :: string
  passportNumber :: string
  firstName :: string
  lastName :: string
  flightNumber :: string
  gate :: string
  departureTime :: string
  biometrics :: BiometricData
  enrollmentTime :: int
  checkpoints :: Checkpoints
  guardianId :: "string option"

datatype checkpoint = Security | Immigration | Boarding

datatype access = granted | denied

record StaffLogEntry =
  id_l :: string
  passengerId :: string
  checkpoint_l :: checkpoint
  timestamp_l :: int
  result :: access
  staffId :: string
  notes_l :: "string option"

text \<open>
  The two keys of \<^verbatim>\<open>localStorage\<close>, each holding a JSON array (a missing key reads as
  the empty array). Reading what the application wrote never fails; a write
  (\<^verbatim>\<open>setItem\<close>) may throw, for instance when the quota is exceeded.
\<close>

record storage =
  passengers :: "PassengerData list"
  staff_logs :: "StaffLogEntry list"

text \<open>
  What one call reads from its host: \<^verbatim>\<open>new Date(s)\<close> as milliseconds (\<open>None\<close> for an
  invalid date), the clock at the first reading of the call (\<^verbatim>\<open>new Date()\<close> in a
  verification or a cleanup) and at its second reading (\<^verbatim>\<open>Date.now()\<close>),
  \<^verbatim>\<open>crypto.randomUUID()\<close>, and whether the writes of the passenger key and of the log
  key succeed.
\<close>

record host =
  Date_parse :: "string \<Rightarrow> int option"
  now :: int
  Date_now :: int
  randomUUID :: string
  setItem_passengers :: bool
  setItem_logs :: bool

section \<open>Similarity (biometric-utils.ts)\<close>

text \<open>
  The loop of \<^verbatim>\<open>calculateFaceSimilarity\<close> over two arrays of finite numbers of the
  same length, with its three accumulators.
\<close>

fun simLoop :: "real list \<Rightarrow> real list \<Rightarrow> jsnum \<times> jsnum \<times> jsnum \<Rightarrow> jsnum \<times> jsnum \<times> jsnum" where
  "simLoop (x # xs) (y # ys) (dotProduct, norm1, norm2) =
     simLoop xs ys
       (fadd dotProduct (fmul (Fin x) (Fin y)),
        fadd norm1 (fmul (Fin x) (Fin x)),
        fadd norm2 (fmul (Fin y) (Fin y)))"
| "simLoop _ _ acc = acc"

definition calculateFaceSimilarity :: "real list \<Rightarrow> real list \<Rightarrow> jsnum" where
  "calculateFaceSimilarity embedding1 embedding2 =
     (if length embedding1 \<noteq> length embedding2 then Fin 0
      else case simLoop embedding1 embedding2 (Fin 0, Fin 0, Fin 0) of
             (dotProduct, norm1, norm2) \<Rightarrow> fdiv dotProduct (fmul (fsqrt norm1) (fsqrt norm2)))"

record Match =
  faceMatch :: bool
  fingerprintMatch :: bool
  similarity_m :: jsnum

text \<open>A string is truthy when it is not empty; an array always is.\<close>

definition verifyBiometricMatch ::
  "BiometricData \<Rightarrow> string \<Rightarrow> string option \<Rightarrow> real list option \<Rightarrow> Match" where
  "verifyBiometricMatch storedBiometrics currentFaceHash currentFingerprintHash currentFaceEmbedding =
     \<lparr> faceMatch = (faceHash storedBiometrics = currentFaceHash),
       fingerprintMatch =
         (case currentFingerprintHash of
            Some h \<Rightarrow> (if h \<noteq> [] then fingerprintHash storedBiometrics = h else True)
          | None \<Rightarrow> True),
       similarity_m =
         (case (currentFaceEmbedding, faceEmbedding storedBiometrics) of
            (Some cur, Some stored) \<Rightarrow> calculateFaceSimilarity stored cur
          | _ \<Rightarrow> Fin 0) \<rparr>"

definition isFlightValid :: "host \<Rightarrow> string \<Rightarrow> bool" where
  "isFlightValid h dt = (case Date_parse h dt of None \<Rightarrow> False | Some departure \<Rightarrow> now h < departure)"



section \<open>The stores (data-store.ts)\<close>

text \<open>\<^verbatim>\<open>Array.prototype.findIndex\<close>; \<open>None\<close> stands for the result \<^verbatim>\<open>-1\<close>.\<close>

fun findIndex :: "('a \<Rightarrow> bool) \<Rightarrow> 'a list \<Rightarrow> nat option" where
  "findIndex P [] = None"
| "findIndex P (x # xs) = (if P x then Some 0 else map_option Suc (findIndex P xs))"

datatype error = SaveFailed

text \<open>
  \<^verbatim>\<open>savePassengerData\<close> replaces the first record with the same id or appends; when the
  write throws it throws \<^verbatim>\<open>Error('Failed to save passenger data')\<close> and nothing is stored.
\<close>

definition savePassengerData :: "host \<Rightarrow> PassengerData \<Rightarrow> storage \<Rightarrow> error + storage" where
  "savePassengerData h passenger st =
     (let ps = passengers st;
          ps' = (case findIndex (\<lambda>p. id_p p = id_p passenger) ps of
                   Some existingIndex \<Rightarrow> ps[existingIndex := passenger]
                 | None \<Rightarrow> ps @ [passenger])
      in if setItem_passengers h then Inr (st\<lparr>passengers := ps'\<rparr>) else Inl SaveFailed)"

definition findPassengersByBiometrics :: "string \<Rightarrow> string option \<Rightarrow> storage \<Rightarrow> PassengerData list" where
  "findPassengersByBiometrics fh fp st =
     filter (\<lambda>p. faceHash (biometrics p) = fh \<and>
                 (case fp of
                    Some f \<Rightarrow> (if f \<noteq> [] then fingerprintHash (biometrics p) = f else True)
                  | None \<Rightarrow> True))
            (passengers st)"

fun get_checkpoint :: "checkpoint \<Rightarrow> Checkpoints \<Rightarrow> bool" where
  "get_checkpoint Security c = security c"
| "get_checkpoint Immigration c = immigration c"
| "get_checkpoint Boarding c = boarding c"

fun set_checkpoint :: "checkpoint \<Rightarrow> bool \<Rightarrow> Checkpoints \<Rightarrow> Checkpoints" where
  "set_checkpoint Security b c = c\<lparr>security := b\<rparr>"
| "set_checkpoint Immigration b c = c\<lparr>immigration := b\<rparr>"
| "set_checkpoint Boarding b c = c\<lparr>boarding := b\<rparr>"

text \<open>
  \<^verbatim>\<open>updateCheckpointStatus\<close> looks the id up in a fresh copy of the array, sets the flag
  on the record found and saves it; the error of the save is caught and gives \<^verbatim>\<open>false\<close>.
\<close>

definition updateCheckpointStatus ::
  "host \<Rightarrow> string \<Rightarrow> checkpoint \<Rightarrow> bool \<Rightarrow> storage \<Rightarrow> bool \<times> storage" where
  "updateCheckpointStatus h pid cp status st =
     (case find (\<lambda>p. id_p p = pid) (passengers st) of
        None \<Rightarrow> (False, st)
      | Some passenger \<Rightarrow>
          (case savePassengerData h
                  (passenger\<lparr>checkpoints := set_checkpoint cp status (checkpoints passenger)\<rparr>) st of
             Inl _ \<Rightarrow> (False, st)
           | Inr st' \<Rightarrow> (True, st')))"

definition deletePassengerData :: "host \<Rightarrow> string \<Rightarrow> storage \<Rightarrow> bool \<times> storage" where
  "deletePassengerData h pid st =
     (let filteredPassengers = filter (\<lambda>p. id_p p \<noteq> pid) (passengers st)
      in if setItem_passengers h then (True, st\<lparr>passengers := filteredPassengers\<rparr>)
         else (False, st))"

definition cleanupExpiredPassengers :: "host \<Rightarrow> storage \<Rightarrow> int \<times> storage" where
  "cleanupExpiredPassengers h st =
     (let ps = passengers st;
          activePassengers =
            filter (\<lambda>p. case Date_parse h (departureTime p) of
                          None \<Rightarrow> False
                        | Some departure \<Rightarrow> now h < departure) ps;
          deletedCount = int (length ps) - int (length activePassengers)
      in if setItem_passengers h then (deletedCount, st\<lparr>passengers := activePassengers\<rparr>)
         else (0, st))"

text \<open>
  \<^verbatim>\<open>logCheckpointAccess\<close> gives the entry a fresh id and appends it; a failing write is
  caught and leaves the log as it was.
\<close>

definition logCheckpointAccess ::
  "host \<Rightarrow> string \<Rightarrow> checkpoint \<Rightarrow> int \<Rightarrow> access \<Rightarrow> string \<Rightarrow> string option \<Rightarrow> storage \<Rightarrow> storage" where
  "logCheckpointAccess h pid cp ts res staff nts st =
     (let logEntry = \<lparr> id_l = randomUUID h, passengerId = pid, checkpoint_l = cp,
                        timestamp_l = ts, result = res, staffId = staff, notes_l = nts \<rparr>
      in if setItem_logs h then st\<lparr>staff_logs := staff_logs st @ [logEntry]\<rparr> else st)"

section \<open>Verification at a checkpoint (CheckpointStation.tsx)\<close>

record Verification =
  success :: bool
  passenger :: "PassengerData option"
  message :: string
  similarity :: "jsnum option"

text \<open>The loop over the candidates, from \<^verbatim>\<open>bestMatch = candidates[0]\<close>, \<^verbatim>\<open>bestSimilarity = 0\<close>.\<close>

fun bestMatchLoop ::
  "string \<Rightarrow> string option \<Rightarrow> real list \<Rightarrow> PassengerData list \<Rightarrow> PassengerData \<times> jsnum
   \<Rightarrow> PassengerData \<times> jsnum" where
  "bestMatchLoop fh fp emb [] acc = acc"
| "bestMatchLoop fh fp emb (candidate # cs) (bestMatch, bestSimilarity) =
     (case faceEmbedding (biometrics candidate) of
        None \<Rightarrow> bestMatchLoop fh fp emb cs (bestMatch, bestSimilarity)
      | Some _ \<Rightarrow>
          (let verification = verifyBiometricMatch (biometrics candidate) fh fp (Some emb)
           in if js_gt (similarity_m verification) bestSimilarity
              then bestMatchLoop fh fp emb cs (candidate, similarity_m verification)
              else bestMatchLoop fh fp emb cs (bestMatch, bestSimilarity)))"

definition similarityNotes :: "jsnum \<Rightarrow> string" where
  "similarityNotes bestSimilarity = ''Similarity: '' @ toFixed1 (fmul bestSimilarity (Fin 100)) @ ''%''"

definition processVerification ::
  "host \<Rightarrow> checkpoint \<Rightarrow> string \<Rightarrow> real list \<Rightarrow> string option \<Rightarrow> storage
   \<Rightarrow> Verification \<times> storage" where
  "processVerification h cp fh emb fp st =
     (case findPassengersByBiometrics fh fp st of
        [] \<Rightarrow>
          (\<lparr> success = False, passenger = None,
             message = ''No matching passenger found. Please verify your identity or enroll first.'',
             similarity = None \<rparr>, st)
      | c0 # cs \<Rightarrow>
          (case bestMatchLoop fh fp emb (c0 # cs) (c0, Fin 0) of
             (bestMatch, bestSimilarity) \<Rightarrow>
               if \<not> isFlightValid h (departureTime bestMatch) then
                 (\<lparr> success = False, passenger = Some bestMatch,
                    message = ''Flight has already departed. Access denied.'',
                    similarity = Some bestSimilarity \<rparr>, st)
               else if cp = Immigration \<and> \<not> security (checkpoints bestMatch) then
                 (\<lparr> success = False, passenger = Some bestMatch,
                    message = ''Must clear security checkpoint first.'',
                    similarity = Some bestSimilarity \<rparr>, st)
               else if cp = Boarding \<and>
                       (\<not> security (checkpoints bestMatch) \<or> \<not> immigration (checkpoints bestMatch)) then
                 (\<lparr> success = False, passenger = Some bestMatch,
                    message = ''Must clear security and immigration checkpoints first.'',
                    similarity = Some bestSimilarity \<rparr>, st)
               else if get_checkpoint cp (checkpoints bestMatch) then
                 (\<lparr> success = True, passenger = Some bestMatch,
                    message = ''Already cleared this checkpoint. Access granted.'',
                    similarity = Some bestSimilarity \<rparr>, st)
               else
                 (let st1 = snd (updateCheckpointStatus h (id_p bestMatch) cp True st);
                      st2 = logCheckpointAccess h (id_p bestMatch) cp (Date_now h) granted ''SYSTEM''
                              (Some (similarityNotes bestSimilarity)) st1
                  in (\<lparr> success = True, passenger = Some bestMatch,
                        message = ''Access granted. Welcome, '' @ firstName bestMatch @ ''!'',
                        similarity = Some bestSimilarity \<rparr>, st2))))"

text \<open>
  The five outcomes of the specification, read off the returned object: no passenger
  attached, the departed-flight message, any other denial, the already-cleared message,
  any other success.
\<close>

datatype outcome = NO_MATCH | FLIGHT_DEPARTED | PREREQUISITE_MISSING | ALREADY_CLEARED | GRANTED

definition outcome_of :: "Verification \<Rightarrow> outcome" where
  "outcome_of r =
     (if passenger r = None then NO_MATCH
      else if \<not> success r then
        (if message r = ''Flight has already departed. Access denied.'' then FLIGHT_DEPARTED
         else PREREQUISITE_MISSING)
      else if message r = ''Already cleared this checkpoint. Access granted.'' then ALREADY_CLEARED
      else GRANTED)"

text \<open>The record and the similarity the loop selects, when there is a candidate.\<close>

definition selectBest ::
  "string \<Rightarrow> real list \<Rightarrow> string option \<Rightarrow> PassengerData list \<Rightarrow> (PassengerData \<times> jsnum) option" where
  "selectBest fh emb fp candidates =
     (case candidates of
        [] \<Rightarrow> None
      | c0 # cs \<Rightarrow> Some (bestMatchLoop fh fp emb (c0 # cs) (c0, Fin 0)))"

text \<open>A sequence of verifications, each with its own host readings and inputs.\<close>

type_synonym call = "host \<times> checkpoint \<times> string \<times> real list \<times> string option"

fun verifyAll :: "call list \<Rightarrow> storage \<Rightarrow> storage" where
  "verifyAll [] st = st"
| "verifyAll ((h, cp, fh, emb, fp) # calls) st =
     verifyAll calls (snd (processVerification h cp fh emb fp st))"

section \<open>Enrollment (EnrollmentStation.tsx)\<close>

record FormData =
  firstName_f :: string
  lastName_f :: string
  passportNumber_f :: string
  flightNumber_f :: string
  gate_f :: string
  departureTime_f :: string

record FaceData =
  hash :: string
  embedding :: "real list"

datatype step = Info | Face | Fingerprint | Complete

text \<open>
  The state of the component, and with it the number of face captures and of
  fingerprint uploads whose asynchronous processing has started and not yet finished.
\<close>

record Enrollment =
  currentStep :: step
  formData :: FormData
  faceData :: "FaceData option"
  fingerprintHash_e :: "string option"
  isProcessing :: bool
  capturesPending :: nat
  uploadsPending :: nat

definition initialEnrollment :: Enrollment where
  "initialEnrollment =
     \<lparr> currentStep = Info,
       formData = \<lparr> firstName_f = [], lastName_f = [], passportNumber_f = [],
                    flightNumber_f = [], gate_f = [], departureTime_f = [] \<rparr>,
       faceData = None, fingerprintHash_e = None,
       isProcessing = False, capturesPending = 0, uploadsPending = 0 \<rparr>"

text \<open>
  \<^verbatim>\<open>completeEnrollment\<close>: without both scans nothing happens (a toast); otherwise the
  record is built from the form and saved. The result is the record handed to
  \<^verbatim>\<open>onEnrollmentComplete\<close>, or \<open>None\<close> when a toast reports an error.
\<close>

definition completeEnrollment :: "host \<Rightarrow> Enrollment \<Rightarrow> storage \<Rightarrow> PassengerData option \<times> storage" where
  "completeEnrollment h u st =
     (case (faceData u, fingerprintHash_e u) of
        (Some fd, Some fph) \<Rightarrow>
          if fph = [] then (None, st)
          else
            (let passenger =
                   \<lparr> id_p = ''TRU-'' @ randomUUID h,
                     passportNumber = passportNumber_f (formData u),
                     firstName = firstName_f (formData u),
                     lastName = lastName_f (formData u),
                     flightNumber = flightNumber_f (formData u),
                     gate = gate_f (formData u),
                     departureTime = departureTime_f (formData u),
                     biometrics = \<lparr> faceHash = hash fd, fingerprintHash = fph,
                                     faceEmbedding = Some (embedding fd), timestamp = now h \<rparr>,
                     enrollmentTime = Date_now h,
                     checkpoints = \<lparr> security = False, immigration = False, boarding = False \<rparr>,
                     guardianId = None \<rparr>
             in case savePassengerData h passenger st of
                  Inl _ \<Rightarrow> (None, st)
                | Inr st' \<Rightarrow> (Some passenger, st'))
      | _ \<Rightarrow> (None, st))"

text \<open>
  What can happen to the component: the actions of the visitor, and the end of the
  processing a capture or an upload has started (with its result, or \<open>None\<close> when it
  failed). The form fields are shown in the step \<open>Info\<close> only; its button is disabled
  unless first name, last name, passport number and flight number are all non-empty.
  The buttons Back, Capture Face and Complete Enrollment are disabled while
  \<open>isProcessing\<close> is set; the file input of the fingerprint step is not. The handlers of
  a capture and of an upload set \<open>isProcessing\<close>, and when their processing ends they
  clear it and, on success, store the result and set the step, whatever the step then
  is. A completed enrollment returns to the menu: the component is unmounted, and the
  next enrollment starts from the initial state.
\<close>

datatype field = FirstName | LastName | PassportNumber | FlightNumber | Gate | DepartureTime

datatype event =
    Input field string
  | ContinueToFaceScan
  | Back
  | CaptureFace
  | FaceProcessed "FaceData option"
  | ChooseFingerprint
  | FingerprintProcessed "string option"
  | CompleteEnrollment

fun setField :: "field \<Rightarrow> string \<Rightarrow> FormData \<Rightarrow> FormData" where
  "setField FirstName v f = f\<lparr>firstName_f := v\<rparr>"
| "setField LastName v f = f\<lparr>lastName_f := v\<rparr>"
| "setField PassportNumber v f = f\<lparr>passportNumber_f := v\<rparr>"
| "setField FlightNumber v f = f\<lparr>flightNumber_f := v\<rparr>"
| "setField Gate v f = f\<lparr>gate_f := v\<rparr>"
| "setField DepartureTime v f = f\<lparr>departureTime_f := v\<rparr>"

definition continueDisabled :: "FormData \<Rightarrow> bool" where
  "continueDisabled f \<longleftrightarrow>
     firstName_f f = [] \<or> lastName_f f = [] \<or> passportNumber_f f = [] \<or> flightNumber_f f = []"

fun enrollmentEvent :: "host \<Rightarrow> event \<Rightarrow> Enrollment \<times> storage \<Rightarrow> Enrollment \<times> storage" where
  "enrollmentEvent h (Input fld v) (u, st) =
     (if currentStep u = Info then (u\<lparr>formData := setField fld v (formData u)\<rparr>, st) else (u, st))"
| "enrollmentEvent h ContinueToFaceScan (u, st) =
     (if currentStep u = Info \<and> \<not> continueDisabled (formData u)
      then (u\<lparr>currentStep := Face\<rparr>, st) else (u, st))"
| "enrollmentEvent h Back (u, st) =
     (if isProcessing u then (u, st)
      else case currentStep u of
        Info \<Rightarrow> (u, st)
      | Face \<Rightarrow> (u\<lparr>currentStep := Info\<rparr>, st)
      | Fingerprint \<Rightarrow> (u\<lparr>currentStep := Face\<rparr>, st)
      | Complete \<Rightarrow> (u\<lparr>currentStep := Fingerprint\<rparr>, st))"
| "enrollmentEvent h CaptureFace (u, st) =
     (if currentStep u = Face \<and> \<not> isProcessing u
      then (u\<lparr>isProcessing := True, capturesPending := capturesPending u + 1\<rparr>, st)
      else (u, st))"
| "enrollmentEvent h (FaceProcessed r) (u, st) =
     (if capturesPending u = 0 then (u, st)
      else case r of
        Some fd \<Rightarrow>
          (u\<lparr>faceData := Some fd, currentStep := Fingerprint, isProcessing := False,
              capturesPending := capturesPending u - 1\<rparr>, st)
      | None \<Rightarrow> (u\<lparr>isProcessing := False, capturesPending := capturesPending u - 1\<rparr>, st))"
| "enrollmentEvent h ChooseFingerprint (u, st) =
     (if currentStep u = Fingerprint
      then (u\<lparr>isProcessing := True, uploadsPending := uploadsPending u + 1\<rparr>, st)
      else (u, st))"
| "enrollmentEvent h (FingerprintProcessed r) (u, st) =
     (if uploadsPending u = 0 then (u, st)
      else case r of
        Some fph \<Rightarrow>
          (u\<lparr>fingerprintHash_e := Some fph, currentStep := Complete, isProcessing := False,
              uploadsPending := uploadsPending u - 1\<rparr>, st)
      | None \<Rightarrow> (u\<lparr>isProcessing := False, uploadsPending := uploadsPending u - 1\<rparr>, st))"
| "enrollmentEvent h CompleteEnrollment (u, st) =
     (if currentStep u = Complete \<and> \<not> isProcessing u then
        (case completeEnrollment h u st of
           (None, st') \<Rightarrow> (u, st')
         | (Some p, st') \<Rightarrow> (initialEnrollment, st'))
      else (u, st))"

fun enrollmentRun :: "(host \<times> event) list \<Rightarrow> Enrollment \<times> storage \<Rightarrow> Enrollment \<times> storage" where
  "enrollmentRun [] s = s"
| "enrollmentRun ((h, ev) # evs) s = enrollmentRun evs (enrollmentEvent h ev s)"

text \<open>
  A run in which no fingerprint file is chosen while a capture or an upload is being
  processed.
\<close>

fun unhurried :: "(host \<times> event) list \<Rightarrow> Enrollment \<times> storage \<Rightarrow> bool" where
  "unhurried [] s = True"
| "unhurried ((h, ev) # evs) s =
     ((ev = ChooseFingerprint \<longrightarrow> \<not> isProcessing (fst s)) \<and>
      unhurried evs (enrollmentEvent h ev s))"

text \<open>The fields the specification calls required, on a stored record.\<close>

definition requiredPresent :: "PassengerData \<Rightarrow> bool" where
  "requiredPresent p \<longleftrightarrow>
     firstName p \<noteq> [] \<and> lastName p \<noteq> [] \<and> passportNumber p \<noteq> [] \<and> flightNumber p \<noteq> []"

section \<open>Auxiliary notions for the statements\<close>

text \<open>The objects returned by the six \<^verbatim>\<open>return\<close> statements of \<^verbatim>\<open>processVerification\<close>.\<close>

definition noMatchResult :: Verification where
  "noMatchResult =
     \<lparr> success = False, passenger = None,
       message = ''No matching passenger found. Please verify your identity or enroll first.'',
       similarity = None \<rparr>"

definition departedResult :: "PassengerData \<Rightarrow> jsnum \<Rightarrow> Verification" where
  "departedResult bestMatch bestSimilarity =
     \<lparr> success = False, passenger = Some bestMatch,
       message = ''Flight has already departed. Access denied.'',
       similarity = Some bestSimilarity \<rparr>"

definition securityFirstResult :: "PassengerData \<Rightarrow> jsnum \<Rightarrow> Verification" where
  "securityFirstResult bestMatch bestSimilarity =
     \<lparr> success = False, passenger = Some bestMatch,
       message = ''Must clear security checkpoint first.'',
       similarity = Some bestSimilarity \<rparr>"

definition bothFirstResult :: "PassengerData \<Rightarrow> jsnum \<Rightarrow> Verification" where
  "bothFirstResult bestMatch bestSimilarity =
     \<lparr> success = False, passenger = Some bestMatch,
       message = ''Must clear security and immigration checkpoints first.'',
       similarity = Some bestSimilarity \<rparr>"

definition alreadyClearedResult :: "PassengerData \<Rightarrow> jsnum \<Rightarrow> Verification" where
  "alreadyClearedResult bestMatch bestSimilarity =
     \<lparr> success = True, passenger = Some bestMatch,
       message = ''Already cleared this checkpoint. Access granted.'',
       similarity = Some bestSimilarity \<rparr>"

definition grantedResult :: "PassengerData \<Rightarrow> jsnum \<Rightarrow> Verification" where
  "grantedResult bestMatch bestSimilarity =
     \<lparr> success = True, passenger = Some bestMatch,
       message = ''Access granted. Welcome, '' @ firstName bestMatch @ ''!'',
       similarity = Some bestSimilarity \<rparr>"

text \<open>The entry a grant appends to the log.\<close>

definition grantEntry :: "host \<Rightarrow> checkpoint \<Rightarrow> PassengerData \<Rightarrow> jsnum \<Rightarrow> StaffLogEntry" where
  "grantEntry h cp bestMatch bestSimilarity =
     \<lparr> id_l = randomUUID h, passengerId = id_p bestMatch, checkpoint_l = cp,
       timestamp_l = Date_now h, result = granted, staffId = ''SYSTEM'',
       notes_l = Some (similarityNotes bestSimilarity) \<rparr>"

text \<open>The two writes of the granting branch: the flag, then the log entry.\<close>

definition grantEffect :: "host \<Rightarrow> checkpoint \<Rightarrow> PassengerData \<Rightarrow> jsnum \<Rightarrow> storage \<Rightarrow> storage" where
  "grantEffect h cp best sim st =
     logCheckpointAccess h (id_p best) cp (Date_now h) granted ''SYSTEM''
       (Some (similarityNotes sim)) (snd (updateCheckpointStatus h (id_p best) cp True st))"

text \<open>The prerequisites of a checkpoint, as the two precedence tests read them.\<close>

fun prerequisitesMet :: "checkpoint \<Rightarrow> Checkpoints \<Rightarrow> bool" where
  "prerequisitesMet Security c = True"
| "prerequisitesMet Immigration c = security c"
| "prerequisitesMet Boarding c = (security c \<and> immigration c)"

text \<open>The similarity of a candidate to the presented embedding, if it stores one.\<close>

definition simOf :: "real list \<Rightarrow> PassengerData \<Rightarrow> jsnum option" where
  "simOf emb c =
     map_option (\<lambda>stored. calculateFaceSimilarity stored emb) (faceEmbedding (biometrics c))"

text \<open>
  A candidate is \<open>notAbove\<close> a similarity when its own, if it has one, is not greater,
  and \<open>below\<close> it when its own is moreover different.
\<close>

definition notAbove :: "real list \<Rightarrow> jsnum \<Rightarrow> PassengerData \<Rightarrow> bool" where
  "notAbove emb r c \<longleftrightarrow> (\<forall>s. simOf emb c = Some s \<longrightarrow> \<not> js_gt s r)"

definition below :: "real list \<Rightarrow> jsnum \<Rightarrow> PassengerData \<Rightarrow> bool" where
  "below emb r c \<longleftrightarrow> (\<forall>s. simOf emb c = Some s \<longrightarrow> \<not> js_gt s r \<and> s \<noteq> r)"

definition noCheckpoints :: Checkpoints where
  "noCheckpoints = \<lparr> security = False, immigration = False, boarding = False \<rparr>"

definition allTrue :: Checkpoints where
  "allTrue = \<lparr> security = True, immigration = True, boarding = True \<rparr>"

text \<open>A record with one checkpoint flag written, all other fields as they were.\<close>

definition withCheckpoint :: "checkpoint \<Rightarrow> bool \<Rightarrow> PassengerData \<Rightarrow> PassengerData" where
  "withCheckpoint cp b p = p\<lparr>checkpoints := set_checkpoint cp b (checkpoints p)\<rparr>"

definition precedence :: "PassengerData \<Rightarrow> bool" where
  "precedence p \<longleftrightarrow>
     (boarding (checkpoints p) \<longrightarrow> security (checkpoints p) \<and> immigration (checkpoints p))"

text \<open>
  A record that is not the first one with its id is never written by
  \<^verbatim>\<open>updateCheckpointStatus\<close>; \<open>shadowedUntouched\<close> says that all such records still have
  no checkpoint cleared.
\<close>

definition shadowedUntouched :: "PassengerData list \<Rightarrow> bool" where
  "shadowedUntouched ps \<longleftrightarrow>
     (\<forall>k < length ps. findIndex (\<lambda>q. id_p q = id_p (ps ! k)) ps \<noteq> Some k
        \<longrightarrow> checkpoints (ps ! k) = noCheckpoints)"

text \<open>In every step but the first, the form has passed the test of the button.\<close>

definition formChecked :: "Enrollment \<Rightarrow> bool" where
  "formChecked u \<longleftrightarrow> (currentStep u \<noteq> Info \<longrightarrow> \<not> continueDisabled (formData u))"

text \<open>
  At most one capture or upload is being processed, \<open>isProcessing\<close> is set exactly while
  one is, and the step shown is still the one that started it.
\<close>

definition orderly :: "Enrollment \<Rightarrow> bool" where
  "orderly u \<longleftrightarrow>
     formChecked u \<and>
     capturesPending u + uploadsPending u \<le> 1 \<and>
     (isProcessing u \<longleftrightarrow> capturesPending u + uploadsPending u = 1) \<and>
     (capturesPending u = 1 \<longrightarrow> currentStep u = Face) \<and>
     (uploadsPending u = 1 \<longrightarrow> currentStep u = Fingerprint)"

text \<open>A record as an enrollment creates it.\<close>

definition freshlyEnrolled :: "PassengerData \<Rightarrow> bool" where
  "freshlyEnrolled p \<longleftrightarrow>
     requiredPresent p \<and>
     checkpoints p = \<lparr> security = False, immigration = False, boarding = False \<rparr>"

section \<open>Example data\<close>

text \<open>A host in UTC at 2023-11-14T22:13:20Z, and the same host at 2030-03-17T17:46:40Z.\<close>

definition exampleHost :: host where
  "exampleHost =
     \<lparr> Date_parse = (\<lambda>s. if s = ''2030-01-01T00:00'' then Some 1893456000000
                          else if s = ''2020-01-01T00:00'' then Some 1577836800000
                          else None),
       now = 1700000000000, Date_now = 1700000000001, randomUUID = ''u-1'',
       setItem_passengers = True, setItem_logs = True \<rparr>"

definition laterHost :: host where
  "laterHost = exampleHost\<lparr>now := 1900000000000, Date_now := 1900000000001\<rparr>"

text \<open>
  Passengers: two whose embeddings score 0.9 and 0.3 against \<open>[1, 0, 0, 0]\<close>, two with
  the parallel embeddings \<open>[1, 1]\<close> and \<open>[3, 3]\<close>, one without an embedding, one with the
  embedding \<open>[0, 1]\<close>, one without a departure date.
\<close>

definition examplePassenger ::
  "string \<Rightarrow> string \<Rightarrow> real list option \<Rightarrow> string \<Rightarrow> Checkpoints \<Rightarrow> PassengerData" where
  "examplePassenger i fh e dep cps =
     \<lparr> id_p = i, passportNumber = ''P1'', firstName = ''Ada'', lastName = ''Byron'',
       flightNumber = ''EK123'', gate = ''A12'', departureTime = dep,
       biometrics = \<lparr> faceHash = fh, fingerprintHash = ''f1'', faceEmbedding = e, timestamp = 0 \<rparr>,
       enrollmentTime = 0, checkpoints = cps, guardianId = None \<rparr>"

text \<open>The binary64 values nearest to 0.9 and to 0.3.\<close>

definition d09 :: real where
  "d09 = 8106479329266893 / 2 ^ 53"

definition d03 :: real where
  "d03 = 5404319552844595 / 2 ^ 54"

text \<open>The binary64 values nearest to 0.0015 and to 0.15; the second is below 0.15.\<close>

definition d0015 :: real where
  "d0015 = 3458764513820541 / 2 ^ 61"

definition d015 :: real where
  "d015 = 5404319552844595 / 2 ^ 55"




text \<open>
  The binary64 values of the square roots of 2 and of 18, of the square of the first
  (the product of the two is 6), and the value next below 1.
\<close>

definition root2 :: real where
  "root2 = 6369051672525773 / 2 ^ 52"

definition root18 :: real where
  "root18 = 4776788754394329 / 2 ^ 50"

definition square2 :: real where
  "square2 = 2 + 1 / 2 ^ 51"

definition belowOne :: real where
  "belowOne = 1 - 1 / 2 ^ 52"

definition scoring09 :: PassengerData where
  "scoring09 = examplePassenger ''TRU-9'' ''h1'' (Some [9, 3, 3, 1]) ''2030-01-01T00:00'' noCheckpoints"

definition scoring03 :: PassengerData where
  "scoring03 = examplePassenger ''TRU-3'' ''h1'' (Some [3, 9, 3, 1]) ''2030-01-01T00:00'' noCheckpoints"

definition stored11 :: PassengerData where
  "stored11 = examplePassenger ''TRU-11'' ''h1'' (Some [1, 1]) ''2030-01-01T00:00'' noCheckpoints"

definition stored33 :: PassengerData where
  "stored33 = examplePassenger ''TRU-33'' ''h1'' (Some [3, 3]) ''2030-01-01T00:00'' noCheckpoints"

definition withoutEmbedding :: PassengerData where
  "withoutEmbedding = examplePassenger ''TRU-0'' ''h1'' None ''2030-01-01T00:00'' noCheckpoints"

definition withEmbedding :: PassengerData where
  "withEmbedding = examplePassenger ''TRU-1'' ''h1'' (Some [0, 1]) ''2030-01-01T00:00'' noCheckpoints"

definition undated :: PassengerData where
  "undated = examplePassenger ''TRU-2'' ''h2'' (Some [1]) [] noCheckpoints"

text \<open>Stores: a departed flight with every checkpoint cleared; a flight in the future, before and after the security checkpoint; the two with a record without a date; no record.\<close>

definition departedStore :: storage where
  "departedStore =
     \<lparr> passengers = [examplePassenger ''TRU-1'' ''h1'' (Some [1]) ''2020-01-01T00:00'' allTrue],
       staff_logs = [] \<rparr>"

definition futureStore :: storage where
  "futureStore = \<lparr> passengers = [scoring09], staff_logs = [] \<rparr>"

definition clearedStore :: storage where
  "clearedStore =
     \<lparr> passengers = [withCheckpoint Security True scoring09],
       staff_logs = [grantEntry exampleHost Security scoring09 (Fin d09)] \<rparr>"

definition mixedStore :: storage where
  "mixedStore =
     \<lparr> passengers = [examplePassenger ''TRU-1'' ''h1'' (Some [1]) ''2020-01-01T00:00'' allTrue,
                      scoring09, undated],
       staff_logs = [] \<rparr>"

definition emptyStore :: storage where
  "emptyStore = \<lparr> passengers = [], staff_logs = [] \<rparr>"

text \<open>An enrollment from the first form field to the button that completes it, the departure field filled in or left empty; the form before the last action, and the record created.\<close>

definition enrollmentOf :: "string \<Rightarrow> (host \<times> event) list" where
  "enrollmentOf dep =
     map (Pair exampleHost)
       [Input FirstName ''Ada'', Input LastName ''Byron'', Input PassportNumber ''P1'',
        Input FlightNumber ''EK123'', Input Gate ''A12'', Input DepartureTime dep,
        ContinueToFaceScan,
        CaptureFace, FaceProcessed (Some \<lparr> hash = ''h1'', embedding = [9, 3, 3, 1] \<rparr>),
        ChooseFingerprint, FingerprintProcessed (Some ''f1''), CompleteEnrollment]"

definition readyEnrollment :: "string \<Rightarrow> Enrollment" where
  "readyEnrollment dep =
     \<lparr> currentStep = Complete,
       formData = \<lparr> firstName_f = ''Ada'', lastName_f = ''Byron'', passportNumber_f = ''P1'',
                    flightNumber_f = ''EK123'', gate_f = ''A12'', departureTime_f = dep \<rparr>,
       faceData = Some \<lparr> hash = ''h1'', embedding = [9, 3, 3, 1] \<rparr>,
       fingerprintHash_e = Some ''f1'',
       isProcessing = False, capturesPending = 0, uploadsPending = 0 \<rparr>"

definition enrolled :: "string \<Rightarrow> PassengerData" where
  "enrolled dep =
     \<lparr> id_p = ''TRU-u-1'', passportNumber = ''P1'', firstName = ''Ada'', lastName = ''Byron'',
       flightNumber = ''EK123'', gate = ''A12'', departureTime = dep,
       biometrics = \<lparr> faceHash = ''h1'', fingerprintHash = ''f1'',
                       faceEmbedding = Some [9, 3, 3, 1], timestamp = 1700000000000 \<rparr>,
       enrollmentTime = 1700000000001,
       checkpoints = \<lparr> security = False, immigration = False, boarding = False \<rparr>,
       guardianId = None \<rparr>"

text \<open>
  An enrollment in which a second fingerprint file is chosen while the first is still
  being processed: the first upload ends, the visitor goes back to the form and empties
  the first name, then the second upload ends and shows the last step. The record it
  creates has no first name.
\<close>

definition overlappingUploads :: "(host \<times> event) list" where
  "overlappingUploads =
     map (Pair exampleHost)
       [Input FirstName ''Ada'', Input LastName ''Byron'', Input PassportNumber ''P1'',
        Input FlightNumber ''EK123'', Input Gate ''A12'', Input DepartureTime ''2030-01-01T10:00'',
        ContinueToFaceScan,
        CaptureFace, FaceProcessed (Some \<lparr> hash = ''h1'', embedding = [9, 3, 3, 1] \<rparr>),
        ChooseFingerprint, ChooseFingerprint, FingerprintProcessed (Some ''f1''),
        Back, Back, Back, Input FirstName [],
        FingerprintProcessed (Some ''f1''), CompleteEnrollment]"

definition nameless :: PassengerData where
  "nameless = (enrolled ''2030-01-01T10:00'')\<lparr>firstName := []\<rparr>"

section \<open>Rounding to binary64\<close>

lemma round_even_of_int [simp]: "round_even (of_int n) = n"
  by (simp add: round_even_def)

lemma round_even_between:
  assumes "of_int n - 1 / 2 < r" "r < of_int n + 1 / 2"
  shows "round_even r = n"
proof (cases "of_int n \<le> r")
  case True
  then have f: "\<lfloor>r\<rfloor> = n" using assms(2) by (simp add: floor_eq_iff)
  then show ?thesis using assms(2) by (simp add: round_even_def Let_def)
next
  case False
  then have f: "\<lfloor>r\<rfloor> = n - 1" using assms(1) by (simp add: floor_eq_iff)
  then show ?thesis using assms(1) by (simp add: round_even_def Let_def)
qed

lemma pow2_powr: "(2::real) powr (of_int k) = 2 powi k"
  by (rule powr_real_of_int') simp_all

lemma log2_bracket:
  assumes "0 < x"
  shows "2 powi \<lfloor>log 2 x\<rfloor> \<le> x" "x < 2 powi (\<lfloor>log 2 x\<rfloor> + 1)"
proof -
  have "2 powr (of_int \<lfloor>log 2 x\<rfloor>) \<le> x \<and> x < 2 powr (of_int \<lfloor>log 2 x\<rfloor> + 1)"
    using floor_log_eq_powr_iff[of x 2 "\<lfloor>log 2 x\<rfloor>"] assms by simp
  then show "2 powi \<lfloor>log 2 x\<rfloor> \<le> x" "x < 2 powi (\<lfloor>log 2 x\<rfloor> + 1)"
    using pow2_powr[of "\<lfloor>log 2 x\<rfloor>"] pow2_powr[of "\<lfloor>log 2 x\<rfloor> + 1"] by simp_all
qed

lemma floor_log2_eq:
  assumes "2 powi e \<le> x" "x < 2 powi (e + 1)"
  shows "\<lfloor>log 2 x\<rfloor> = e"
proof -
  have "(0::real) < 2 powi e" by simp
  with assms(1) have pos: "0 < x" by linarith
  have "2 powr (of_int e) \<le> x" using assms(1) by (simp only: pow2_powr)
  moreover have "x < 2 powr (of_int e + 1)"
    using assms(2) pow2_powr[of "e + 1"] by simp
  ultimately show ?thesis using pos
    by (simp add: floor_log_eq_powr_iff)
qed

text \<open>
  The value of \<open>fl\<close> at a number whose binary exponent and rounded significand are
  known, and at an integer below \<open>2 ^ 53\<close>, which is its own binary64 value.
\<close>

lemma fl_normal:
  assumes "2 powi e \<le> \<bar>x\<bar>" "\<bar>x\<bar> < 2 powi (e + 1)" "- 1022 \<le> e"
    and "round_even (x / 2 powi (e - 52)) = n"
    and "\<bar>of_int n * 2 powi (e - 52)\<bar> < (2::real) ^ 1024"
  shows "fl x = Fin (of_int n * 2 powi (e - 52))"
proof -
  have "(0::real) < 2 powi e" by simp
  with assms(1) have "0 < \<bar>x\<bar>" by linarith
  then have "x \<noteq> 0" by simp
  moreover have "max \<lfloor>log 2 \<bar>x\<bar>\<rfloor> (- 1022) = e"
    using floor_log2_eq[OF assms(1,2)] assms(3) by simp
  ultimately show ?thesis using assms(4,5) by (simp add: fl_def Let_def)
qed

lemma fl_int:
  assumes "\<bar>m\<bar> < 2 ^ 53"
  shows "fl (of_int m) = Fin (of_int m)"
proof (cases "m = 0")
  case True
  then show ?thesis by (simp add: fl_def)
next
  case False
  define x :: real where "x = \<bar>of_int m\<bar>"
  define e where "e = \<lfloor>log 2 x\<rfloor>"
  have x1: "1 \<le> x" using False by (simp add: x_def)
  have x2: "x < 2 ^ 53" using assms unfolding x_def
    by (metis of_int_abs of_int_less_numeral_power_cancel_iff)
  have b: "2 powi e \<le> x" "x < 2 powi (e + 1)"
    unfolding e_def using log2_bracket[of x] x1 by simp_all
  have e0: "0 \<le> e"
  proof (rule ccontr)
    assume "\<not> 0 \<le> e"
    then have "e + 1 \<le> 0" by simp
    then have "(2::real) powi (e + 1) \<le> 2 powi 0" by (intro power_int_increasing) simp_all
    with b(2) x1 show False by simp
  qed
  have e52: "e \<le> 52"
  proof (rule ccontr)
    assume "\<not> e \<le> 52"
    then have "53 \<le> e" by simp
    then have "(2::real) powi 53 \<le> 2 powi e" by (intro power_int_increasing) simp_all
    with b(1) x2 show False by simp
  qed
  define k where "k = nat (52 - e)"
  have u: "(2::real) powi (e - 52) = 1 / 2 ^ k"
    using e52 by (simp add: k_def power_int_def field_simps)
  have "of_int m / (2::real) powi (e - 52) = of_int (m * 2 ^ k)"
    by (simp add: u)
  then have r: "round_even (of_int m / 2 powi (e - 52)) = m * 2 ^ k"
    by (simp only: round_even_of_int)
  have y: "of_int (m * 2 ^ k) * (2::real) powi (e - 52) = of_int m"
    by (simp add: u)
  have "\<bar>real_of_int m\<bar> < 2 ^ 1024"
    using x2 unfolding x_def by (rule less_trans) simp
  then show ?thesis
    using fl_normal[of e "of_int m" "m * 2 ^ k"] b e0 r unfolding x_def y
    by simp
qed

lemma fl_numeral [simp]: "numeral w < (2::int) ^ 53 \<Longrightarrow> fl (numeral w) = Fin (numeral w)"
  using fl_int[of "numeral w"] by simp

lemma fl_0 [simp]: "fl 0 = Fin 0"
  by (simp add: fl_def)

lemma fl_1 [simp]: "fl 1 = Fin 1"
  using fl_int[of 1] by simp

lemma fl_d09: "fl (9 / 10) = Fin d09"
proof -
  have r: "round_even (9 / 10 / 2 powi (- 1 - 52)) = 8106479329266893"
    by (rule round_even_between) (simp_all add: power_int_minus)
  show ?thesis
    using fl_normal[of "- 1" "9 / 10" 8106479329266893] r
    by (simp add: power_int_minus d09_def)
qed

lemma fl_d03: "fl (3 / 10) = Fin d03"
proof -
  have r: "round_even (3 / 10 / 2 powi (- 2 - 52)) = 5404319552844595"
    by (rule round_even_between) (simp_all add: power_int_minus)
  show ?thesis
    using fl_normal[of "- 2" "3 / 10" 5404319552844595] r
    by (simp add: power_int_minus d03_def)
qed

lemma fl_90: "fl (d09 * 100) = Fin 90"
proof -
  have r: "round_even (d09 * 100 / 2 powi (6 - 52)) = 6333186975989760"
    by (rule round_even_between) (simp_all add: power_int_minus d09_def)
  show ?thesis
    using fl_normal[of 6 "d09 * 100" 6333186975989760] r
    by (simp add: power_int_minus d09_def)
qed

section \<open>Properties of the similarity\<close>





















section \<open>The branches of a verification\<close>

lemma selectBest_Some: "cs \<noteq> [] \<Longrightarrow> \<exists>best sim. selectBest fh emb fp cs = Some (best, sim)"
  by (cases cs) (simp_all add: selectBest_def)

lemma selectBest_None: "selectBest fh emb fp cs = None \<longleftrightarrow> cs = []"
  by (cases cs) (simp_all add: selectBest_def)

lemma processVerification_empty:
  "findPassengersByBiometrics fh fp st = [] \<Longrightarrow>
   processVerification h cp fh emb fp st = (noMatchResult, st)"
  by (simp add: processVerification_def noMatchResult_def)

lemma not_prerequisitesMet:
  "\<not> prerequisitesMet cp c \<longleftrightarrow>
     (cp = Immigration \<and> \<not> security c) \<or> (cp = Boarding \<and> (\<not> security c \<or> \<not> immigration c))"
  by (cases cp) simp_all

lemma processVerification_selected:
  assumes "selectBest fh emb fp (findPassengersByBiometrics fh fp st) = Some (best, sim)"
  shows "processVerification h cp fh emb fp st =
     (if \<not> isFlightValid h (departureTime best) then (departedResult best sim, st)
      else if cp = Immigration \<and> \<not> security (checkpoints best) then (securityFirstResult best sim, st)
      else if cp = Boarding \<and> (\<not> security (checkpoints best) \<or> \<not> immigration (checkpoints best))
        then (bothFirstResult best sim, st)
      else if get_checkpoint cp (checkpoints best) then (alreadyClearedResult best sim, st)
      else (grantedResult best sim, grantEffect h cp best sim st))"
proof (cases "findPassengersByBiometrics fh fp st")
  case Nil
  with assms show ?thesis by (simp add: selectBest_def)
next
  case (Cons c0 cs)
  with assms have "bestMatchLoop fh fp emb (c0 # cs) (c0, Fin 0) = (best, sim)"
    by (simp add: selectBest_def del: bestMatchLoop.simps)
  with Cons show ?thesis
    by (auto simp add: processVerification_def departedResult_def securityFirstResult_def
        bothFirstResult_def alreadyClearedResult_def grantedResult_def grantEffect_def Let_def
        simp del: bestMatchLoop.simps)
qed

lemma outcome_noMatch [simp]: "outcome_of noMatchResult = NO_MATCH"
  by (simp add: outcome_of_def noMatchResult_def)

lemma outcome_departed [simp]: "outcome_of (departedResult b s) = FLIGHT_DEPARTED"
  by (simp add: outcome_of_def departedResult_def)

lemma outcome_securityFirst [simp]: "outcome_of (securityFirstResult b s) = PREREQUISITE_MISSING"
  by (simp add: outcome_of_def securityFirstResult_def)

lemma outcome_bothFirst [simp]: "outcome_of (bothFirstResult b s) = PREREQUISITE_MISSING"
  by (simp add: outcome_of_def bothFirstResult_def)

lemma outcome_alreadyCleared [simp]: "outcome_of (alreadyClearedResult b s) = ALREADY_CLEARED"
  by (simp add: outcome_of_def alreadyClearedResult_def)

lemma outcome_granted [simp]: "outcome_of (grantedResult b s) = GRANTED"
  by (simp add: outcome_of_def grantedResult_def)

text \<open>
  Claim C1: with a non-empty candidate set, when the departure time of the selected
  record is at or before the clock, the call returns the departed-flight denial with
  the selected record and the similarity attached, for every requested checkpoint and
  every state of the record's checkpoint flags, and it changes neither store.
\<close>

theorem departed_flight_denied_first:
  assumes "findPassengersByBiometrics fh fp st \<noteq> []"
    and "selectBest fh emb fp (findPassengersByBiometrics fh fp st) = Some (best, sim)"
    and "Date_parse h (departureTime best) = Some departure"
    and "departure \<le> now h"
  shows "processVerification h cp fh emb fp st =
           (\<lparr> success = False, passenger = Some best,
              message = ''Flight has already departed. Access denied.'',
              similarity = Some sim \<rparr>, st)
         \<and> outcome_of (fst (processVerification h cp fh emb fp st)) = FLIGHT_DEPARTED"
proof -
  have "\<not> isFlightValid h (departureTime best)"
    using assms(3,4) by (simp add: isFlightValid_def)
  then have "processVerification h cp fh emb fp st = (departedResult best sim, st)"
    by (simp add: processVerification_selected[OF assms(2)])
  then show ?thesis by (simp add: departedResult_def[symmetric])
qed


theorem departed_flight_denied_first_witness:
  "findPassengersByBiometrics ''h1'' None departedStore \<noteq> [] \<and>
   now exampleHost = 1700000000000 \<and>
   Date_parse exampleHost ''2020-01-01T00:00'' = Some 1577836800000 \<and>
   get_checkpoint Boarding allTrue \<and>
   processVerification exampleHost Boarding ''h1'' [1] None departedStore =
     (\<lparr> success = False,
        passenger = Some (examplePassenger ''TRU-1'' ''h1'' (Some [1]) ''2020-01-01T00:00'' allTrue),
        message = ''Flight has already departed. Access denied.'',
        similarity = Some (Fin 1) \<rparr>, departedStore)"
proof -
  let ?p = "examplePassenger ''TRU-1'' ''h1'' (Some [1]) ''2020-01-01T00:00'' allTrue"
  have c: "findPassengersByBiometrics ''h1'' None departedStore = [?p]"
    by (simp add: findPassengersByBiometrics_def departedStore_def examplePassenger_def)
  have ne: "findPassengersByBiometrics ''h1'' None departedStore \<noteq> []"
    by (simp add: c)
  have s: "selectBest ''h1'' [1] None (findPassengersByBiometrics ''h1'' None departedStore)
             = Some (?p, Fin 1)"
    by (simp add: c selectBest_def examplePassenger_def verifyBiometricMatch_def
        calculateFaceSimilarity_def)
  have d: "Date_parse exampleHost (departureTime ?p) = Some 1577836800000"
    by (simp add: exampleHost_def examplePassenger_def)
  have n: "1577836800000 \<le> now exampleHost"
    by (simp add: exampleHost_def)
  have "get_checkpoint Boarding allTrue" by (simp add: allTrue_def)
  moreover have "now exampleHost = 1700000000000" by (simp add: exampleHost_def)
  moreover have "Date_parse exampleHost ''2020-01-01T00:00'' = Some 1577836800000"
    by (simp add: exampleHost_def)
  ultimately show ?thesis
    using departed_flight_denied_first[where cp = Boarding, OF ne s d n] ne by simp
qed

section \<open>Best-match selection\<close>

lemma js_gt_irrefl [simp]: "\<not> js_gt a a"
  by (cases a) simp_all

lemma js_gt_trans: "js_gt a b \<Longrightarrow> js_gt b c \<Longrightarrow> js_gt a c"
  by (cases a; cases b; cases c) simp_all

lemma js_gt_asym: "js_gt a b \<Longrightarrow> \<not> js_gt b a"
  by (cases a; cases b) simp_all

lemma similarity_m_verify:
  "faceEmbedding b = Some stored \<Longrightarrow>
   similarity_m (verifyBiometricMatch b fh fp (Some emb)) = calculateFaceSimilarity stored emb"
  by (simp add: verifyBiometricMatch_def)

lemma bestMatchLoop_Cons:
  "bestMatchLoop fh fp emb (c # cs) (bm, bs) =
     (case simOf emb c of
        None \<Rightarrow> bestMatchLoop fh fp emb cs (bm, bs)
      | Some s \<Rightarrow> if js_gt s bs then bestMatchLoop fh fp emb cs (c, s)
                  else bestMatchLoop fh fp emb cs (bm, bs))"
  by (cases "faceEmbedding (biometrics c)") (simp_all add: simOf_def similarity_m_verify)

declare bestMatchLoop.simps(2) [simp del]

lemma bestMatchLoop_result:
  "bestMatchLoop fh fp emb cs (bm, bs) = (best, r) \<Longrightarrow>
     (best = bm \<and> r = bs \<and> (\<forall>c \<in> set cs. notAbove emb bs c)) \<or>
     (\<exists>pre post. cs = pre @ best # post \<and> simOf emb best = Some r \<and> js_gt r bs \<and>
        (\<forall>c \<in> set pre. below emb r c) \<and> (\<forall>c \<in> set post. notAbove emb r c))"
proof (induction cs arbitrary: bm bs)
  case Nil
  then show ?case by simp
next
  case (Cons c cs)
  show ?case
  proof (cases "\<exists>s. simOf emb c = Some s \<and> js_gt s bs")
    case True
    then obtain s where s: "simOf emb c = Some s" "js_gt s bs" by blast
    with Cons.prems have "bestMatchLoop fh fp emb cs (c, s) = (best, r)"
      by (simp add: bestMatchLoop_Cons)
    from Cons.IH[OF this] show ?thesis
    proof
      assume a: "best = c \<and> r = s \<and> (\<forall>c \<in> set cs. notAbove emb s c)"
      have "c # cs = [] @ best # cs" using a by simp
      moreover have "simOf emb best = Some r" "js_gt r bs" using a s by simp_all
      moreover have "\<forall>c \<in> set cs. notAbove emb r c" using a by simp
      ultimately show ?thesis by (metis empty_iff list.set(1))
    next
      assume "\<exists>pre post. cs = pre @ best # post \<and> simOf emb best = Some r \<and> js_gt r s \<and>
        (\<forall>c \<in> set pre. below emb r c) \<and> (\<forall>c \<in> set post. notAbove emb r c)"
      then obtain pre post where p: "cs = pre @ best # post" "simOf emb best = Some r"
        "js_gt r s" "\<forall>c \<in> set pre. below emb r c" "\<forall>c \<in> set post. notAbove emb r c"
        by blast
      have "c # cs = (c # pre) @ best # post" using p(1) by simp
      moreover have "js_gt r bs" using p(3) s(2) by (rule js_gt_trans)
      moreover have "below emb r c"
        using s(1) p(3) js_gt_asym[OF p(3)] by (auto simp: below_def)
      ultimately show ?thesis using p(2,4,5) by (metis set_ConsD)
    qed
  next
    case False
    with Cons.prems have "bestMatchLoop fh fp emb cs (bm, bs) = (best, r)"
      by (auto simp: bestMatchLoop_Cons split: option.splits if_splits)
    from Cons.IH[OF this] show ?thesis
    proof
      assume a: "best = bm \<and> r = bs \<and> (\<forall>c \<in> set cs. notAbove emb bs c)"
      have "notAbove emb bs c" using False by (auto simp: notAbove_def)
      with a show ?thesis by simp
    next
      assume "\<exists>pre post. cs = pre @ best # post \<and> simOf emb best = Some r \<and> js_gt r bs \<and>
        (\<forall>c \<in> set pre. below emb r c) \<and> (\<forall>c \<in> set post. notAbove emb r c)"
      then obtain pre post where p: "cs = pre @ best # post" "simOf emb best = Some r"
        "js_gt r bs" "\<forall>c \<in> set pre. below emb r c" "\<forall>c \<in> set post. notAbove emb r c"
        by blast
      have "c # cs = (c # pre) @ best # post" using p(1) by simp
      moreover have "below emb r c"
        unfolding below_def
      proof (intro allI impI)
        fix s assume s: "simOf emb c = Some s"
        then have n: "\<not> js_gt s bs" using False by blast
        have "\<not> js_gt s r" using n p(3) js_gt_trans by blast
        moreover have "s \<noteq> r" using n p(3) by blast
        ultimately show "\<not> js_gt s r \<and> s \<noteq> r" by simp
      qed
      ultimately show ?thesis using p(2,3,4,5) by (metis set_ConsD)
    qed
  qed
qed


text \<open>
  Claim C6, as the code has it: over a non-empty candidate list the selection returns a
  record and a similarity. The score of a candidate is the similarity computed, in
  binary64, between its stored embedding and the presented one; a candidate without a
  stored embedding has none and is skipped. If some candidate scores above 0, the
  selected record is the first one with the greatest score: it has a stored embedding,
  no candidate scores higher, and no earlier candidate scores the same. If none scores
  above 0 (in particular if no candidate has an embedding) the first candidate is
  selected with similarity 0. Of two candidates with scores \<open>s1\<close> above \<open>s2\<close> above 0,
  such as the binary64 values of 0.9 and 0.3, the one with \<open>s1\<close> is selected, in either
  order.
\<close>

theorem best_match_selection:
  "(cs \<noteq> [] \<longrightarrow>
     (\<exists>best r. selectBest fh emb fp cs = Some (best, r) \<and>
        (if \<exists>c \<in> set cs. \<exists>s. simOf emb c = Some s \<and> js_gt s (Fin 0)
         then \<exists>pre post. cs = pre @ best # post \<and> simOf emb best = Some r \<and> js_gt r (Fin 0) \<and>
                (\<forall>c \<in> set pre. below emb r c) \<and> (\<forall>c \<in> set post. notAbove emb r c)
         else best = hd cs \<and> r = Fin 0))) \<and>
   (simOf emb c1 = Some s1 \<and> simOf emb c2 = Some s2 \<and> js_gt s1 s2 \<and> js_gt s2 (Fin 0) \<longrightarrow>
      selectBest fh emb fp [c1, c2] = Some (c1, s1) \<and>
      selectBest fh emb fp [c2, c1] = Some (c1, s1))"
proof (intro conjI impI)
  assume ne: "cs \<noteq> []"
  then obtain c0 cs' where cs: "cs = c0 # cs'" by (cases cs) auto
  obtain best r where l: "bestMatchLoop fh fp emb cs (c0, Fin 0) = (best, r)"
    by (cases "bestMatchLoop fh fp emb cs (c0, Fin 0)") auto
  then have sel: "selectBest fh emb fp cs = Some (best, r)"
    by (simp add: selectBest_def cs)
  let ?pos = "\<exists>c \<in> set cs. \<exists>s. simOf emb c = Some s \<and> js_gt s (Fin 0)"
  from bestMatchLoop_result[OF l]
  have "if ?pos
        then \<exists>pre post. cs = pre @ best # post \<and> simOf emb best = Some r \<and> js_gt r (Fin 0) \<and>
                (\<forall>c \<in> set pre. below emb r c) \<and> (\<forall>c \<in> set post. notAbove emb r c)
        else best = hd cs \<and> r = Fin 0"
  proof
    assume a: "best = c0 \<and> r = Fin 0 \<and> (\<forall>c \<in> set cs. notAbove emb (Fin 0) c)"
    then have "\<not> ?pos" by (auto simp: notAbove_def)
    with a show ?thesis by (simp add: cs)
  next
    assume b: "\<exists>pre post. cs = pre @ best # post \<and> simOf emb best = Some r \<and> js_gt r (Fin 0) \<and>
        (\<forall>c \<in> set pre. below emb r c) \<and> (\<forall>c \<in> set post. notAbove emb r c)"
    then have "best \<in> set cs" "simOf emb best = Some r" "js_gt r (Fin 0)" by auto
    then have ?pos by blast
    with b show ?thesis by simp
  qed
  with sel show "\<exists>best r. selectBest fh emb fp cs = Some (best, r) \<and>
        (if ?pos
         then \<exists>pre post. cs = pre @ best # post \<and> simOf emb best = Some r \<and> js_gt r (Fin 0) \<and>
                (\<forall>c \<in> set pre. below emb r c) \<and> (\<forall>c \<in> set post. notAbove emb r c)
         else best = hd cs \<and> r = Fin 0)"
    by blast
next
  assume a: "simOf emb c1 = Some s1 \<and> simOf emb c2 = Some s2 \<and> js_gt s1 s2 \<and> js_gt s2 (Fin 0)"
  then have "js_gt s1 (Fin 0)" "\<not> js_gt s2 s1"
    using js_gt_trans js_gt_asym by blast+
  with a show "selectBest fh emb fp [c1, c2] = Some (c1, s1)"
    and "selectBest fh emb fp [c2, c1] = Some (c1, s1)"
    by (simp_all add: selectBest_def bestMatchLoop_Cons)
qed

lemma sqrt_100: "sqrt 100 = 10"
  by (rule real_sqrt_unique) simp_all

lemma simOf_scoring09: "simOf [1, 0, 0, 0] scoring09 = Some (Fin d09)"
  by (simp add: simOf_def scoring09_def scoring03_def examplePassenger_def calculateFaceSimilarity_def
      sqrt_100 fl_d09 fl_d03)

lemma simOf_scoring03: "simOf [1, 0, 0, 0] scoring03 = Some (Fin d03)"
  by (simp add: simOf_def scoring09_def scoring03_def examplePassenger_def calculateFaceSimilarity_def
      sqrt_100 fl_d09 fl_d03)

text \<open>
  Two parallel stored embeddings against \<open>[1, 1]\<close>: the exact cosines are both 1, the
  computed ones are 0.9999999999999998 for \<open>[1, 1]\<close> and 1 for \<open>[3, 3]\<close>.
\<close>

lemma fl_sqrt_2: "fl (sqrt 2) = Fin root2"
proof -
  have lo: "2 powi 0 \<le> \<bar>sqrt 2\<bar>" by simp
  have hi: "\<bar>sqrt 2\<bar> < 2 powi (0 + 1)"
    by (simp add: real_less_lsqrt)
  have a: "(6369051672525773 - 1 / 2) / 2 ^ 52 < sqrt 2"
    by (rule real_less_rsqrt) (simp add: power2_eq_square)
  have b: "sqrt 2 < (6369051672525773 + 1 / 2) / 2 ^ 52"
    by (rule real_less_lsqrt) (simp_all add: power2_eq_square)
  have r: "round_even (sqrt 2 / 2 powi (0 - 52)) = 6369051672525773"
    by (rule round_even_between) (use a b in \<open>simp_all add: power_int_minus field_simps\<close>)
  show ?thesis
    using fl_normal[OF lo hi _ r] by (simp add: power_int_minus root2_def)
qed

lemma fl_sqrt_18: "fl (sqrt 18) = Fin root18"
proof -
  have lo: "2 powi 2 \<le> \<bar>sqrt 18\<bar>"
    by (simp add: real_le_rsqrt)
  have hi: "\<bar>sqrt 18\<bar> < 2 powi (2 + 1)"
    by (simp add: real_less_lsqrt)
  have a: "(4776788754394329 - 1 / 2) / 2 ^ 50 < sqrt 18"
    by (rule real_less_rsqrt) (simp add: power2_eq_square)
  have b: "sqrt 18 < (4776788754394329 + 1 / 2) / 2 ^ 50"
    by (rule real_less_lsqrt) (simp_all add: power2_eq_square)
  have r: "round_even (sqrt 18 / 2 powi (2 - 52)) = 4776788754394329"
    by (rule round_even_between) (use a b in \<open>simp_all add: power_int_minus field_simps\<close>)
  show ?thesis
    using fl_normal[OF lo hi _ r] by (simp add: power_int_minus root18_def)
qed

lemma fl_square_root2: "fl (root2 * root2) = Fin square2"
proof -
  have r: "round_even (root2 * root2 / 2 powi (1 - 52)) = 4503599627370497"
    by (rule round_even_between) (simp_all add: power_int_minus root2_def)
  show ?thesis
    using fl_normal[of 1 "root2 * root2" 4503599627370497] r
    by (simp add: power_int_minus root2_def square2_def)
qed

lemma fl_root18_root2: "fl (root18 * root2) = Fin 6"
proof -
  have r: "round_even (root18 * root2 / 2 powi (2 - 52)) = 6755399441055744"
    by (rule round_even_between) (simp_all add: power_int_minus root2_def root18_def)
  show ?thesis
    using fl_normal[of 2 "root18 * root2" 6755399441055744] r
    by (simp add: power_int_minus root2_def root18_def)
qed

lemma fl_quotient_2: "fl (2 / square2) = Fin belowOne"
proof -
  have r: "round_even (2 / square2 / 2 powi (- 1 - 52)) = 9007199254740990"
    by (rule round_even_between) (simp_all add: power_int_minus square2_def)
  show ?thesis
    using fl_normal[of "- 1" "2 / square2" 9007199254740990] r
    by (simp add: power_int_minus square2_def belowOne_def)
qed

lemma square2_nonzero: "square2 \<noteq> 0"
  by (simp add: square2_def)

lemma simOf_stored11: "simOf [1, 1] stored11 = Some (Fin belowOne)"
  by (simp add: simOf_def stored11_def examplePassenger_def calculateFaceSimilarity_def
      fl_sqrt_2 fl_square_root2 fl_quotient_2 square2_nonzero)

lemma simOf_stored33: "simOf [1, 1] stored33 = Some (Fin 1)"
  by (simp add: simOf_def stored33_def examplePassenger_def calculateFaceSimilarity_def
      fl_sqrt_2 fl_sqrt_18 fl_root18_root2)

lemma select_parallel:
  "selectBest ''h1'' [1, 1] None [stored11, stored33] = Some (stored33, Fin 1)"
  by (simp add: selectBest_def bestMatchLoop_Cons simOf_stored11 simOf_stored33 belowOne_def)

theorem best_match_selection_witness:
  "simOf [1, 0, 0, 0] scoring09 = Some (Fin d09) \<and>
   simOf [1, 0, 0, 0] scoring03 = Some (Fin d03) \<and>
   js_gt (Fin d09) (Fin d03) \<and> js_gt (Fin d03) (Fin 0) \<and>
   selectBest ''h1'' [1, 0, 0, 0] None [scoring03, scoring09] = Some (scoring09, Fin d09) \<and>
   selectBest ''h1'' [1, 0, 0, 0] None [scoring09, scoring03] = Some (scoring09, Fin d09) \<and>
   (\<exists>best r. selectBest ''h1'' [1, 0] None [withoutEmbedding, withEmbedding] = Some (best, r) \<and>
      best = withoutEmbedding \<and> r = Fin 0) \<and>
   simOf [1, 1] stored11 = Some (Fin belowOne) \<and> simOf [1, 1] stored33 = Some (Fin 1) \<and>
   (\<exists>best r. selectBest ''h1'' [1, 1] None [stored11, stored33] = Some (best, r) \<and>
      best = stored33 \<and> r = Fin 1 \<and> simOf [1, 1] best = Some r)"
proof -
  have n: "\<not> (\<exists>c \<in> set [withoutEmbedding, withEmbedding]. \<exists>s. simOf [1, 0] c = Some s \<and> js_gt s (Fin 0))"
    by (simp add: simOf_def withoutEmbedding_def withEmbedding_def examplePassenger_def
        calculateFaceSimilarity_def)
  have "[withoutEmbedding, withEmbedding] \<noteq> []" by simp
  with best_match_selection[of "[withoutEmbedding, withEmbedding]" "''h1''" "[1, 0]" None]
  have 1: "\<exists>best r. selectBest ''h1'' [1, 0] None [withoutEmbedding, withEmbedding] = Some (best, r) \<and>
      best = withoutEmbedding \<and> r = Fin 0"
    using n by (simp del: set_simps)
  have g: "js_gt (Fin d09) (Fin d03)" "js_gt (Fin d03) (Fin 0)"
    by (simp_all add: d09_def d03_def)
  have 2: "selectBest ''h1'' [1, 0, 0, 0] None [scoring09, scoring03] = Some (scoring09, Fin d09)"
    "selectBest ''h1'' [1, 0, 0, 0] None [scoring03, scoring09] = Some (scoring09, Fin d09)"
    using best_match_selection[of "[]" "''h1''" "[1, 0, 0, 0]" None scoring09 "Fin d09"
        scoring03 "Fin d03"] simOf_scoring09 simOf_scoring03 g
    by blast+
  have p: "\<exists>c \<in> set [stored11, stored33]. \<exists>s. simOf [1, 1] c = Some s \<and> js_gt s (Fin 0)"
    by (simp add: simOf_stored33)
  have "[stored11, stored33] \<noteq> []" by simp
  with best_match_selection[of "[stored11, stored33]" "''h1''" "[1, 1]" None] p
  have "\<exists>best r. selectBest ''h1'' [1, 1] None [stored11, stored33] = Some (best, r) \<and>
          simOf [1, 1] best = Some r"
    by (simp only: if_True) blast
  then have 3: "\<exists>best r. selectBest ''h1'' [1, 1] None [stored11, stored33] = Some (best, r) \<and>
      best = stored33 \<and> r = Fin 1 \<and> simOf [1, 1] best = Some r"
    by (simp add: select_parallel)
  from 1 2 3 g simOf_scoring09 simOf_scoring03 simOf_stored11 simOf_stored33
  show ?thesis by simp
qed

text \<open>
  A first candidate without an embedding and a second one whose stored embedding is
  orthogonal to the presented one: the candidate without an embedding is selected.
\<close>

theorem best_match_selection_counterexample:
  "faceEmbedding (biometrics withoutEmbedding) = None \<and>
   faceEmbedding (biometrics withEmbedding) = Some [0, 1] \<and>
   selectBest ''h1'' [1, 0] None [withoutEmbedding, withEmbedding] = Some (withoutEmbedding, Fin 0)"
  by (simp add: selectBest_def bestMatchLoop_Cons simOf_def withoutEmbedding_def
      withEmbedding_def examplePassenger_def calculateFaceSimilarity_def)

section \<open>The store operations\<close>

lemma findIndex_None_iff: "findIndex P xs = None \<longleftrightarrow> (\<forall>x \<in> set xs. \<not> P x)"
  by (induction xs) auto

lemma findIndex_Some_iff:
  "findIndex P xs = Some i \<longleftrightarrow> i < length xs \<and> P (xs ! i) \<and> (\<forall>j < i. \<not> P (xs ! j))"
proof (induction xs arbitrary: i)
  case Nil
  show ?case by simp
next
  case (Cons x xs)
  show ?case
  proof (cases "P x")
    case True
    then show ?thesis by (cases i) auto
  next
    case False
    show ?thesis
    proof (cases i)
      case 0
      with False show ?thesis by auto
    next
      case (Suc k)
      have "(\<forall>j < Suc k. \<not> P ((x # xs) ! j)) \<longleftrightarrow> (\<forall>j < k. \<not> P (xs ! j))"
        using False by (auto simp: less_Suc_eq_0_disj)
      with False Suc Cons.IH[of k] show ?thesis by auto
    qed
  qed
qed

lemma find_findIndex: "find P xs = map_option (\<lambda>i. xs ! i) (findIndex P xs)"
  by (induction xs) (auto simp: option.map_comp comp_def)

lemma findIndex_distinct:
  assumes "distinct (map f xs)" "i < length xs"
  shows "findIndex (\<lambda>q. f q = f (xs ! i)) xs = Some i"
proof -
  have "\<forall>j < i. f (xs ! j) \<noteq> f (xs ! i)"
    using assms by (auto simp: distinct_conv_nth)
  with assms(2) show ?thesis by (simp add: findIndex_Some_iff)
qed

lemma id_p_withCheckpoint [simp]: "id_p (withCheckpoint cp b p) = id_p p"
  by (simp add: withCheckpoint_def)

lemma biometrics_withCheckpoint [simp]: "biometrics (withCheckpoint cp b p) = biometrics p"
  by (simp add: withCheckpoint_def)

lemma departureTime_withCheckpoint [simp]: "departureTime (withCheckpoint cp b p) = departureTime p"
  by (simp add: withCheckpoint_def)

lemma checkpoints_withCheckpoint [simp]:
  "checkpoints (withCheckpoint cp b p) = set_checkpoint cp b (checkpoints p)"
  by (simp add: withCheckpoint_def)

lemma get_set_checkpoint: "get_checkpoint cp' (set_checkpoint cp b c) = (if cp' = cp then b else get_checkpoint cp' c)"
  by (cases cp; cases cp') simp_all

lemma prerequisitesMet_set: "prerequisitesMet cp (set_checkpoint cp b c) = prerequisitesMet cp c"
  by (cases cp) simp_all

lemma updateCheckpointStatus_snd:
  "snd (updateCheckpointStatus h pid cp b st) =
     (case findIndex (\<lambda>p. id_p p = pid) (passengers st) of
        None \<Rightarrow> st
      | Some i \<Rightarrow>
          if setItem_passengers h
          then st\<lparr>passengers := (passengers st)[i := withCheckpoint cp b (passengers st ! i)]\<rparr>
          else st)"
proof (cases "findIndex (\<lambda>p. id_p p = pid) (passengers st)")
  case None
  then show ?thesis by (simp add: updateCheckpointStatus_def find_findIndex)
next
  case (Some i)
  then have "id_p (passengers st ! i) = pid" by (simp add: findIndex_Some_iff)
  with Some show ?thesis
    by (simp add: updateCheckpointStatus_def find_findIndex savePassengerData_def
        withCheckpoint_def Let_def)
qed

lemma staff_logs_update [simp]:
  "staff_logs (snd (updateCheckpointStatus h pid cp b st)) = staff_logs st"
  by (simp add: updateCheckpointStatus_snd split: option.splits)

lemma passengers_grantEffect:
  "passengers (grantEffect h cp best sim st) =
     passengers (snd (updateCheckpointStatus h (id_p best) cp True st))"
  by (simp add: grantEffect_def logCheckpointAccess_def Let_def)

lemma staff_logs_grantEffect:
  "staff_logs (grantEffect h cp best sim st) =
     (if setItem_logs h then staff_logs st @ [grantEntry h cp best sim] else staff_logs st)"
  by (simp add: grantEffect_def logCheckpointAccess_def grantEntry_def Let_def)

lemma bestMatchLoop_mem:
  "bestMatchLoop fh fp emb cs (bm, bs) = (best, r) \<Longrightarrow> best = bm \<or> best \<in> set cs"
  by (drule bestMatchLoop_result) auto

lemma selectBest_mem: "selectBest fh emb fp cs = Some (best, r) \<Longrightarrow> best \<in> set cs"
  by (cases cs) (auto simp: selectBest_def dest: bestMatchLoop_mem)

lemma selected_in_store:
  "selectBest fh emb fp (findPassengersByBiometrics fh fp st) = Some (best, r) \<Longrightarrow>
   best \<in> set (passengers st)"
  by (drule selectBest_mem) (simp add: findPassengersByBiometrics_def)

text \<open>A granted outcome arises in the last branch only.\<close>

lemma granted_branch:
  assumes "outcome_of (fst (processVerification h cp fh emb fp st)) = GRANTED"
  shows "\<exists>best sim. selectBest fh emb fp (findPassengersByBiometrics fh fp st) = Some (best, sim) \<and>
           isFlightValid h (departureTime best) \<and> prerequisitesMet cp (checkpoints best) \<and>
           \<not> get_checkpoint cp (checkpoints best) \<and>
           processVerification h cp fh emb fp st = (grantedResult best sim, grantEffect h cp best sim st)"
proof (cases "findPassengersByBiometrics fh fp st = []")
  case True
  with assms show ?thesis by (simp add: processVerification_empty)
next
  case False
  then obtain best sim where
    s: "selectBest fh emb fp (findPassengersByBiometrics fh fp st) = Some (best, sim)"
    using selectBest_Some by blast
  show ?thesis
    using assms s unfolding processVerification_selected[OF s]
    by (cases cp) (auto split: if_splits)
qed

lemma not_granted_unchanged:
  assumes "outcome_of (fst (processVerification h cp fh emb fp st)) \<noteq> GRANTED"
  shows "snd (processVerification h cp fh emb fp st) = st"
proof (cases "findPassengersByBiometrics fh fp st = []")
  case True
  then show ?thesis by (simp add: processVerification_empty)
next
  case False
  then obtain best sim where
    s: "selectBest fh emb fp (findPassengersByBiometrics fh fp st) = Some (best, sim)"
    using selectBest_Some by blast
  show ?thesis
    using assms unfolding processVerification_selected[OF s]
    by (auto split: if_splits)
qed

section \<open>Logging\<close>

text \<open>
  Claim C2, as the code has it: a verification appends a log entry in the granting
  branch only. When the outcome is GRANTED and the write of the log succeeds, exactly
  one entry is appended, with result \<open>granted\<close> and notes carrying the binary64 product
  of the similarity and 100, printed with one decimal; for every other outcome (FLIGHT_DEPARTED, PREREQUISITE_MISSING,
  ALREADY_CLEARED, NO_MATCH) the log is left as it was.
\<close>

theorem only_grants_are_logged:
  "(outcome_of (fst (processVerification h cp fh emb fp st)) = GRANTED \<and> setItem_logs h \<longrightarrow>
      (\<exists>best sim. selectBest fh emb fp (findPassengersByBiometrics fh fp st) = Some (best, sim) \<and>
         staff_logs (snd (processVerification h cp fh emb fp st)) =
           staff_logs st @
             [\<lparr> id_l = randomUUID h, passengerId = id_p best, checkpoint_l = cp,
                timestamp_l = Date_now h, result = granted, staffId = ''SYSTEM'',
                notes_l = Some (''Similarity: '' @ toFixed1 (fmul sim (Fin 100)) @ ''%'') \<rparr>])) \<and>
   (outcome_of (fst (processVerification h cp fh emb fp st)) \<noteq> GRANTED \<or> \<not> setItem_logs h \<longrightarrow>
      staff_logs (snd (processVerification h cp fh emb fp st)) = staff_logs st)"
proof (intro conjI impI)
  assume a: "outcome_of (fst (processVerification h cp fh emb fp st)) = GRANTED \<and> setItem_logs h"
  then obtain best sim where
    s: "selectBest fh emb fp (findPassengersByBiometrics fh fp st) = Some (best, sim)" and
    p: "processVerification h cp fh emb fp st = (grantedResult best sim, grantEffect h cp best sim st)"
    using granted_branch by blast
  have "staff_logs (snd (processVerification h cp fh emb fp st)) =
          staff_logs st @ [grantEntry h cp best sim]"
    using a by (simp add: p staff_logs_grantEffect)
  with s show "\<exists>best sim. selectBest fh emb fp (findPassengersByBiometrics fh fp st) = Some (best, sim) \<and>
         staff_logs (snd (processVerification h cp fh emb fp st)) =
           staff_logs st @
             [\<lparr> id_l = randomUUID h, passengerId = id_p best, checkpoint_l = cp,
                timestamp_l = Date_now h, result = granted, staffId = ''SYSTEM'',
                notes_l = Some (''Similarity: '' @ toFixed1 (fmul sim (Fin 100)) @ ''%'') \<rparr>]"
    unfolding grantEntry_def similarityNotes_def by blast
next
  assume a: "outcome_of (fst (processVerification h cp fh emb fp st)) \<noteq> GRANTED \<or> \<not> setItem_logs h"
  show "staff_logs (snd (processVerification h cp fh emb fp st)) = staff_logs st"
  proof (cases "outcome_of (fst (processVerification h cp fh emb fp st)) = GRANTED")
    case True
    then obtain best sim where
      p: "processVerification h cp fh emb fp st = (grantedResult best sim, grantEffect h cp best sim st)"
      using granted_branch by blast
    from True a have "\<not> setItem_logs h" by simp
    then show ?thesis by (simp add: p staff_logs_grantEffect)
  next
    case False
    then show ?thesis by (simp add: not_granted_unchanged)
  qed
qed

lemma candidates_futureStore: "findPassengersByBiometrics ''h1'' None futureStore = [scoring09]"
  by (simp add: findPassengersByBiometrics_def futureStore_def scoring09_def examplePassenger_def)

lemma d09_pos: "0 < d09"
  by (simp add: d09_def)

lemma select_futureStore:
  "selectBest ''h1'' [1, 0, 0, 0] None [scoring09] = Some (scoring09, Fin d09)"
  using simOf_scoring09 d09_pos by (simp add: selectBest_def bestMatchLoop_Cons)

lemma valid_scoring09: "isFlightValid exampleHost (departureTime scoring09)"
  by (simp add: isFlightValid_def exampleHost_def scoring09_def examplePassenger_def)

lemma verify_futureStore:
  "processVerification exampleHost Security ''h1'' [1, 0, 0, 0] None futureStore =
     (grantedResult scoring09 (Fin d09),
      grantEffect exampleHost Security scoring09 (Fin d09) futureStore)"
proof -
  have "selectBest ''h1'' [1, 0, 0, 0] None (findPassengersByBiometrics ''h1'' None futureStore)
          = Some (scoring09, Fin d09)"
    by (simp add: candidates_futureStore select_futureStore)
  from processVerification_selected[OF this] valid_scoring09 show ?thesis
    by (simp add: scoring09_def examplePassenger_def noCheckpoints_def)
qed

lemma verify_departedStore:
  "processVerification exampleHost Boarding ''h1'' [1] None departedStore =
     (departedResult (examplePassenger ''TRU-1'' ''h1'' (Some [1]) ''2020-01-01T00:00'' allTrue) (Fin 1),
      departedStore)"
proof -
  let ?p = "examplePassenger ''TRU-1'' ''h1'' (Some [1]) ''2020-01-01T00:00'' allTrue"
  have c: "findPassengersByBiometrics ''h1'' None departedStore = [?p]"
    by (simp add: findPassengersByBiometrics_def departedStore_def examplePassenger_def)
  have s: "selectBest ''h1'' [1] None (findPassengersByBiometrics ''h1'' None departedStore)
             = Some (?p, Fin 1)"
    by (simp add: c selectBest_def bestMatchLoop_Cons simOf_def examplePassenger_def
        calculateFaceSimilarity_def)
  have "\<not> isFlightValid exampleHost (departureTime ?p)"
    by (simp add: isFlightValid_def exampleHost_def examplePassenger_def)
  with processVerification_selected[OF s] show ?thesis by simp
qed

lemma toFixed1_90: "toFixed1 (Fin 90) = ''90.0''"
  by (simp add: toFixed1_def digits.simps digit_def)

text \<open>
  The percentage is rounded twice, to binary64 and then to one decimal: a similarity
  of 0.0015 is written as 0.1 percent.
\<close>

lemma fl_d0015: "fl (3 / 2000) = Fin d0015"
proof -
  have r: "round_even (3 / 2000 / 2 powi (- 10 - 52)) = 6917529027641082"
    by (rule round_even_between) (simp_all add: power_int_minus)
  show ?thesis
    using fl_normal[of "- 10" "3 / 2000" 6917529027641082] r
    by (simp add: power_int_minus d0015_def)
qed

lemma fl_d015: "fl (d0015 * 100) = Fin d015"
proof -
  have r: "round_even (d0015 * 100 / 2 powi (- 3 - 52)) = 5404319552844595"
    by (rule round_even_between) (simp_all add: power_int_minus d0015_def)
  show ?thesis
    using fl_normal[of "- 3" "d0015 * 100" 5404319552844595] r
    by (simp add: power_int_minus d0015_def d015_def)
qed

lemma toFixed1_d015: "toFixed1 (Fin d015) = ''0.1''"
proof -
  have "\<lfloor>\<bar>d015\<bar> * 10 + 1 / 2\<rfloor> = 1"
    by (simp add: d015_def floor_eq_iff)
  then show ?thesis
    by (simp add: toFixed1_def digits.simps digit_def d015_def)
qed

lemma similarityNotes_d0015: "similarityNotes (Fin d0015) = ''Similarity: 0.1%''"
  by (simp add: similarityNotes_def fl_d015 toFixed1_d015)

theorem only_grants_are_logged_witness:
  "outcome_of (fst (processVerification exampleHost Security ''h1'' [1, 0, 0, 0] None futureStore))
     = GRANTED \<and>
   setItem_logs exampleHost \<and>
   staff_logs (snd (processVerification exampleHost Security ''h1'' [1, 0, 0, 0] None futureStore)) =
     [\<lparr> id_l = ''u-1'', passengerId = ''TRU-9'', checkpoint_l = Security,
        timestamp_l = 1700000000001, result = granted, staffId = ''SYSTEM'',
        notes_l = Some ''Similarity: 90.0%'' \<rparr>] \<and>
   outcome_of (fst (processVerification exampleHost Boarding ''h1'' [1] None departedStore))
     \<noteq> GRANTED \<and>
   staff_logs (snd (processVerification exampleHost Boarding ''h1'' [1] None departedStore)) = []"
proof -
  have g: "outcome_of (fst (processVerification exampleHost Security ''h1'' [1, 0, 0, 0] None futureStore)) = GRANTED"
    by (simp add: verify_futureStore)
  have l: "setItem_logs exampleHost" by (simp add: exampleHost_def)
  have s: "selectBest ''h1'' [1, 0, 0, 0] None (findPassengersByBiometrics ''h1'' None futureStore)
          = Some (scoring09, Fin d09)"
    by (simp add: candidates_futureStore select_futureStore)
  have w: "staff_logs (snd (processVerification exampleHost Security ''h1'' [1, 0, 0, 0] None futureStore)) =
     [\<lparr> id_l = ''u-1'', passengerId = ''TRU-9'', checkpoint_l = Security,
        timestamp_l = 1700000000001, result = granted, staffId = ''SYSTEM'',
        notes_l = Some ''Similarity: 90.0%'' \<rparr>]"
  proof -
    have e: "randomUUID exampleHost = ''u-1''" "Date_now exampleHost = 1700000000001"
      "id_p scoring09 = ''TRU-9''" "staff_logs futureStore = []"
      by (simp_all add: exampleHost_def futureStore_def scoring09_def examplePassenger_def)
    show ?thesis
      using only_grants_are_logged[of exampleHost Security "''h1''" "[1, 0, 0, 0]" None futureStore] g l
      by (simp add: s e fl_90 toFixed1_90)
  qed
  have d: "outcome_of (fst (processVerification exampleHost Boarding ''h1'' [1] None departedStore)) \<noteq> GRANTED"
    by (simp add: verify_departedStore)
  have "staff_logs (snd (processVerification exampleHost Boarding ''h1'' [1] None departedStore)) = []"
    using only_grants_are_logged[of exampleHost Boarding "''h1''" "[1]" None departedStore] d
    by (simp add: departedStore_def)
  with g l w d show ?thesis by simp
qed


text \<open>
  A denial that is not logged: boarding is refused because the flight has departed,
  and the log is as empty after the call as before.
\<close>

theorem denial_not_logged_counterexample:
  "outcome_of (fst (processVerification exampleHost Boarding ''h1'' [1] None departedStore))
     = FLIGHT_DEPARTED \<and>
   setItem_logs exampleHost \<and>
   staff_logs departedStore = [] \<and>
   staff_logs (snd (processVerification exampleHost Boarding ''h1'' [1] None departedStore)) = []"
  by (simp add: verify_departedStore) (simp add: departedStore_def exampleHost_def)

section \<open>The effect of a grant\<close>

lemma granted_store:
  assumes "selectBest fh emb fp (findPassengersByBiometrics fh fp st) = Some (best, sim)"
  shows "\<exists>i. findIndex (\<lambda>q. id_p q = id_p best) (passengers st) = Some i \<and>
           (distinct (map id_p (passengers st)) \<longrightarrow> passengers st ! i = best) \<and>
           passengers (grantEffect h cp best sim st) =
             (if setItem_passengers h
              then (passengers st)[i := withCheckpoint cp True (passengers st ! i)]
              else passengers st)"
proof -
  have m: "best \<in> set (passengers st)" using assms by (rule selected_in_store)
  then have "findIndex (\<lambda>q. id_p q = id_p best) (passengers st) \<noteq> None"
    by (auto simp: findIndex_None_iff)
  then obtain i where i: "findIndex (\<lambda>q. id_p q = id_p best) (passengers st) = Some i"
    by blast
  have "passengers st ! i = best" if d: "distinct (map id_p (passengers st))"
  proof -
    obtain k where k: "k < length (passengers st)" "passengers st ! k = best"
      using m by (auto simp: in_set_conv_nth)
    from findIndex_distinct[OF d k(1)] k(2) i have "i = k" by simp
    with k(2) show ?thesis by simp
  qed
  moreover have "passengers (grantEffect h cp best sim st) =
             (if setItem_passengers h
              then (passengers st)[i := withCheckpoint cp True (passengers st ! i)]
              else passengers st)"
    by (simp add: passengers_grantEffect updateCheckpointStatus_snd i)
  ultimately show ?thesis using i by blast
qed

text \<open>
  Claim C10: a verification whose outcome is GRANTED writes one record, the first one
  in the store with the id of the selected best match (with unique ids: the best match
  itself, whose requested flag was false), and replaces it by the same record with the
  requested checkpoint flag set; the other two flags, every other field, every other
  record and the length of the store are as before (when the write of the store fails,
  the store is as a whole as before). The log keeps all its entries, in order, with
  at most one entry appended.
\<close>

theorem grant_changes_only_the_flag:
  assumes "outcome_of (fst (processVerification h cp fh emb fp st)) = GRANTED"
  shows "\<exists>best sim i new.
           selectBest fh emb fp (findPassengersByBiometrics fh fp st) = Some (best, sim) \<and>
           \<not> get_checkpoint cp (checkpoints best) \<and>
           findIndex (\<lambda>q. id_p q = id_p best) (passengers st) = Some i \<and>
           (distinct (map id_p (passengers st)) \<longrightarrow> passengers st ! i = best) \<and>
           passengers (snd (processVerification h cp fh emb fp st)) =
             (if setItem_passengers h
              then (passengers st)
                     [i := (passengers st ! i)
                             \<lparr>checkpoints := set_checkpoint cp True (checkpoints (passengers st ! i))\<rparr>]
              else passengers st) \<and>
           get_checkpoint cp (set_checkpoint cp True (checkpoints (passengers st ! i))) \<and>
           (\<forall>cp'. cp' \<noteq> cp \<longrightarrow>
              get_checkpoint cp' (set_checkpoint cp True (checkpoints (passengers st ! i))) =
              get_checkpoint cp' (checkpoints (passengers st ! i))) \<and>
           staff_logs (snd (processVerification h cp fh emb fp st)) = staff_logs st @ new \<and>
           length new \<le> 1"
proof -
  from granted_branch[OF assms] obtain best sim where
    s: "selectBest fh emb fp (findPassengersByBiometrics fh fp st) = Some (best, sim)" and
    c: "\<not> get_checkpoint cp (checkpoints best)" and
    p: "processVerification h cp fh emb fp st = (grantedResult best sim, grantEffect h cp best sim st)"
    by blast
  from granted_store[OF s, of h cp] obtain i where
    i: "findIndex (\<lambda>q. id_p q = id_p best) (passengers st) = Some i"
      "distinct (map id_p (passengers st)) \<longrightarrow> passengers st ! i = best"
      "passengers (grantEffect h cp best sim st) =
             (if setItem_passengers h
              then (passengers st)[i := withCheckpoint cp True (passengers st ! i)]
              else passengers st)"
    by blast
  define new where "new = (if setItem_logs h then [grantEntry h cp best sim] else [])"
  have l: "staff_logs (snd (processVerification h cp fh emb fp st)) = staff_logs st @ new"
    "length new \<le> 1"
    by (simp_all add: p staff_logs_grantEffect new_def)
  have f: "get_checkpoint cp (set_checkpoint cp True (checkpoints (passengers st ! i)))"
    "\<forall>cp'. cp' \<noteq> cp \<longrightarrow>
              get_checkpoint cp' (set_checkpoint cp True (checkpoints (passengers st ! i))) =
              get_checkpoint cp' (checkpoints (passengers st ! i))"
    by (simp_all add: get_set_checkpoint)
  have "passengers (snd (processVerification h cp fh emb fp st)) =
             (if setItem_passengers h
              then (passengers st)
                     [i := (passengers st ! i)
                             \<lparr>checkpoints := set_checkpoint cp True (checkpoints (passengers st ! i))\<rparr>]
              else passengers st)"
    using i(3) by (simp add: p withCheckpoint_def)
  with s c i(1,2) f l show ?thesis by blast
qed

lemma distinct_futureStore: "distinct (map id_p (passengers futureStore))"
  by (simp add: futureStore_def)

theorem grant_changes_only_the_flag_witness:
  "outcome_of (fst (processVerification exampleHost Security ''h1'' [1, 0, 0, 0] None futureStore))
     = GRANTED \<and>
   distinct (map id_p (passengers futureStore)) \<and>
   passengers futureStore = [scoring09] \<and>
   checkpoints scoring09 = \<lparr> security = False, immigration = False, boarding = False \<rparr> \<and>
   passengers (snd (processVerification exampleHost Security ''h1'' [1, 0, 0, 0] None futureStore))
     = [scoring09\<lparr>checkpoints := \<lparr> security = True, immigration = False, boarding = False \<rparr>\<rparr>]"
proof -
  have g: "outcome_of (fst (processVerification exampleHost Security ''h1'' [1, 0, 0, 0] None futureStore)) = GRANTED"
    by (simp add: verify_futureStore)
  have s: "selectBest ''h1'' [1, 0, 0, 0] None (findPassengersByBiometrics ''h1'' None futureStore)
          = Some (scoring09, Fin d09)"
    by (simp add: candidates_futureStore select_futureStore)
  have e: "passengers futureStore = [scoring09]" "setItem_passengers exampleHost"
    "checkpoints scoring09 = \<lparr> security = False, immigration = False, boarding = False \<rparr>"
    by (simp_all add: futureStore_def exampleHost_def scoring09_def examplePassenger_def
        noCheckpoints_def)
  have "passengers (snd (processVerification exampleHost Security ''h1'' [1, 0, 0, 0] None futureStore))
     = [scoring09\<lparr>checkpoints := \<lparr> security = True, immigration = False, boarding = False \<rparr>\<rparr>]"
    using grant_changes_only_the_flag[OF g] distinct_futureStore
    by (auto simp add: s e)
  with g distinct_futureStore e show ?thesis by simp
qed

section \<open>Verifying twice\<close>

lemma bestMatchLoop_map:
  assumes "\<And>p. biometrics (f p) = biometrics p"
  shows "bestMatchLoop fh fp emb (map f cs) (f bm, bs) =
           (case bestMatchLoop fh fp emb cs (bm, bs) of (b, r) \<Rightarrow> (f b, r))"
proof (induction cs arbitrary: bm bs)
  case Nil
  show ?case by simp
next
  case (Cons c cs)
  have "simOf emb (f c) = simOf emb c" by (simp add: simOf_def assms)
  then show ?case by (simp add: bestMatchLoop_Cons Cons.IH split: option.splits)
qed

lemma selectBest_map:
  assumes "\<And>p. biometrics (f p) = biometrics p"
    and "selectBest fh emb fp cs = Some (best, sim)"
  shows "selectBest fh emb fp (map f cs) = Some (f best, sim)"
proof (cases cs)
  case Nil
  with assms(2) show ?thesis by (simp add: selectBest_def)
next
  case (Cons c0 cs')
  with assms(2) have "bestMatchLoop fh fp emb (c0 # cs') (c0, Fin 0) = (best, sim)"
    by (simp add: selectBest_def)
  with bestMatchLoop_map[of f fh fp emb "c0 # cs'" c0 "Fin 0", OF assms(1)] Cons
  show ?thesis by (simp add: selectBest_def)
qed

lemma candidates_map:
  assumes "\<And>p. biometrics (f p) = biometrics p"
  shows "findPassengersByBiometrics fh fp (st\<lparr>passengers := map f (passengers st)\<rparr>) =
           map f (findPassengersByBiometrics fh fp st)"
  by (cases fp) (simp_all add: findPassengersByBiometrics_def filter_map comp_def assms)

lemma update_as_map:
  assumes "distinct xs" "i < length xs"
  shows "xs[i := y] = map (\<lambda>x. if x = xs ! i then y else x) xs"
proof (rule nth_equalityI)
  show "length (xs[i := y]) = length (map (\<lambda>x. if x = xs ! i then y else x) xs)" by simp
next
  fix j assume "j < length (xs[i := y])"
  then have j: "j < length xs" by simp
  show "xs[i := y] ! j = map (\<lambda>x. if x = xs ! i then y else x) xs ! j"
  proof (cases "j = i")
    case True
    with j show ?thesis by simp
  next
    case False
    with assms j have "xs ! j \<noteq> xs ! i" by (simp add: nth_eq_iff_index_eq)
    with False j show ?thesis by simp
  qed
qed

text \<open>
  Claim C4, as the code has it: in a store with unique ids, when the selected record's
  flight has not departed at either call, its prerequisites are met, the requested
  flag is false, and the write of the store and the write of the log both succeed in
  the first call, two verifications in sequence with the same inputs give GRANTED,
  then ALREADY_CLEARED. The first call replaces the selected record by itself with the
  flag set and appends exactly one log entry, with result \<open>granted\<close>; the second call
  changes neither the store nor the log. So one entry is logged, not two.
\<close>

theorem verify_twice:
  assumes d: "distinct (map id_p (passengers st))"
    and s: "selectBest fh emb fp (findPassengersByBiometrics fh fp st) = Some (best, sim)"
    and v1: "isFlightValid h1 (departureTime best)"
    and v2: "isFlightValid h2 (departureTime best)"
    and pre: "prerequisitesMet cp (checkpoints best)"
    and c: "\<not> get_checkpoint cp (checkpoints best)"
    and w: "setItem_passengers h1"
    and wl: "setItem_logs h1"
  shows "\<exists>st1 i.
           processVerification h1 cp fh emb fp st = (grantedResult best sim, st1) \<and>
           outcome_of (grantedResult best sim) = GRANTED \<and>
           i < length (passengers st) \<and> passengers st ! i = best \<and>
           passengers st1 =
             (passengers st)[i := best\<lparr>checkpoints := set_checkpoint cp True (checkpoints best)\<rparr>] \<and>
           staff_logs st1 = staff_logs st @ [grantEntry h1 cp best sim] \<and>
           result (grantEntry h1 cp best sim) = granted \<and>
           staff_logs (snd (processVerification h2 cp fh emb fp st1)) =
             staff_logs st @ [grantEntry h1 cp best sim] \<and>
           processVerification h2 cp fh emb fp st1 =
             (alreadyClearedResult
                (best\<lparr>checkpoints := set_checkpoint cp True (checkpoints best)\<rparr>) sim, st1) \<and>
           outcome_of (alreadyClearedResult
                (best\<lparr>checkpoints := set_checkpoint cp True (checkpoints best)\<rparr>) sim) = ALREADY_CLEARED"
proof -
  define st1 where "st1 = grantEffect h1 cp best sim st"
  define best' where "best' = withCheckpoint cp True best"
  have np: "\<not> (cp = Immigration \<and> \<not> security (checkpoints best))"
    "\<not> (cp = Boarding \<and> (\<not> security (checkpoints best) \<or> \<not> immigration (checkpoints best)))"
    using pre by (cases cp; simp)+
  have p1: "processVerification h1 cp fh emb fp st = (grantedResult best sim, st1)"
    using v1 np c by (auto simp add: processVerification_selected[OF s] st1_def)
  from granted_store[OF s, of h1 cp] d w obtain i where
    i: "findIndex (\<lambda>q. id_p q = id_p best) (passengers st) = Some i"
      "passengers st ! i = best"
      "passengers st1 = (passengers st)[i := best']"
    by (auto simp: st1_def best'_def)
  have il: "i < length (passengers st)" using i(1) by (simp add: findIndex_Some_iff)
  have dp: "distinct (passengers st)" using d by (simp add: distinct_map)
  let ?f = "\<lambda>x. if x = best then best' else x"
  have bio: "\<And>p. biometrics (?f p) = biometrics p" by (simp add: best'_def)
  have "passengers st1 = map ?f (passengers st)"
    using update_as_map[OF dp il, of best'] i(2,3) by simp
  then have "st1 = st1\<lparr>passengers := map ?f (passengers st)\<rparr>" by simp
  moreover have "findPassengersByBiometrics fh fp (st1\<lparr>passengers := map ?f (passengers st)\<rparr>)
                   = findPassengersByBiometrics fh fp (st\<lparr>passengers := map ?f (passengers st)\<rparr>)"
    by (simp add: findPassengersByBiometrics_def)
  ultimately have "findPassengersByBiometrics fh fp st1 = map ?f (findPassengersByBiometrics fh fp st)"
    using candidates_map[of ?f fh fp st, OF bio] by simp
  with selectBest_map[of ?f fh emb fp "findPassengersByBiometrics fh fp st" best sim, OF bio s]
  have s2: "selectBest fh emb fp (findPassengersByBiometrics fh fp st1) = Some (best', sim)"
    by simp
  have pre': "prerequisitesMet cp (checkpoints best')"
    using pre by (simp add: best'_def prerequisitesMet_set)
  have np': "\<not> (cp = Immigration \<and> \<not> security (checkpoints best'))"
    "\<not> (cp = Boarding \<and> (\<not> security (checkpoints best') \<or> \<not> immigration (checkpoints best')))"
    using pre' by (cases cp; simp)+
  have c': "get_checkpoint cp (checkpoints best')"
    by (simp add: best'_def get_set_checkpoint)
  have v2': "isFlightValid h2 (departureTime best')" using v2 by (simp add: best'_def)
  have p2: "processVerification h2 cp fh emb fp st1 = (alreadyClearedResult best' sim, st1)"
    using v2' np' c' by (auto simp add: processVerification_selected[OF s2])
  have l: "staff_logs st1 = staff_logs st @ [grantEntry h1 cp best sim]"
    using wl by (simp add: st1_def staff_logs_grantEffect)
  have b: "best' = best\<lparr>checkpoints := set_checkpoint cp True (checkpoints best)\<rparr>"
    by (simp add: best'_def withCheckpoint_def)
  have r: "result (grantEntry h1 cp best sim) = granted" by (simp add: grantEntry_def)
  show ?thesis
    using p1 il i(2) i(3) l p2 r unfolding b by (intro exI[of _ st1] exI[of _ i]) simp
qed


lemma grantEffect_futureStore:
  "grantEffect exampleHost Security scoring09 (Fin d09) futureStore = clearedStore"
proof -
  have "findIndex (\<lambda>p. id_p p = id_p scoring09) (passengers futureStore) = Some 0"
    by (simp add: futureStore_def)
  then have "snd (updateCheckpointStatus exampleHost (id_p scoring09) Security True futureStore)
               = \<lparr> passengers = [withCheckpoint Security True scoring09], staff_logs = [] \<rparr>"
    by (simp add: updateCheckpointStatus_snd) (simp add: futureStore_def exampleHost_def)
  then show ?thesis
    by (simp add: grantEffect_def logCheckpointAccess_def grantEntry_def clearedStore_def
        exampleHost_def)
qed

lemma verify_clearedStore:
  "processVerification exampleHost Security ''h1'' [1, 0, 0, 0] None clearedStore =
     (alreadyClearedResult (withCheckpoint Security True scoring09) (Fin d09), clearedStore)"
proof -
  let ?p = "withCheckpoint Security True scoring09"
  have c: "findPassengersByBiometrics ''h1'' None clearedStore = [?p]"
    by (simp add: findPassengersByBiometrics_def clearedStore_def)
       (simp add: scoring09_def examplePassenger_def)
  have "simOf [1, 0, 0, 0] ?p = Some (Fin d09)"
    using simOf_scoring09 by (simp add: simOf_def)
  then have "selectBest ''h1'' [1, 0, 0, 0] None (findPassengersByBiometrics ''h1'' None clearedStore)
          = Some (?p, Fin d09)"
    using d09_pos by (simp add: c selectBest_def bestMatchLoop_Cons)
  from processVerification_selected[OF this] valid_scoring09 show ?thesis by simp
qed

theorem verify_twice_witness:
  "distinct (map id_p (passengers futureStore)) \<and>
   isFlightValid exampleHost (departureTime scoring09) \<and>
   prerequisitesMet Security (checkpoints scoring09) \<and>
   \<not> get_checkpoint Security (checkpoints scoring09) \<and>
   setItem_passengers exampleHost \<and>
   setItem_logs exampleHost \<and>
   (\<exists>st1. processVerification exampleHost Security ''h1'' [1, 0, 0, 0] None futureStore
            = (grantedResult scoring09 (Fin d09), st1) \<and>
          processVerification exampleHost Security ''h1'' [1, 0, 0, 0] None st1
            = (alreadyClearedResult
                 (scoring09\<lparr>checkpoints := set_checkpoint Security True (checkpoints scoring09)\<rparr>)
                 (Fin d09), st1) \<and>
          length (staff_logs st1) = 1)"
proof -
  have s: "selectBest ''h1'' [1, 0, 0, 0] None (findPassengersByBiometrics ''h1'' None futureStore)
          = Some (scoring09, Fin d09)"
    by (simp add: candidates_futureStore select_futureStore)
  have pre: "prerequisitesMet Security (checkpoints scoring09)" by simp
  have c: "\<not> get_checkpoint Security (checkpoints scoring09)"
    by (simp add: scoring09_def examplePassenger_def noCheckpoints_def)
  have w: "setItem_passengers exampleHost" "setItem_logs exampleHost" "staff_logs futureStore = []"
    by (simp_all add: exampleHost_def futureStore_def)
  from verify_twice[OF distinct_futureStore s valid_scoring09 valid_scoring09 pre c w(1) w(2)]
  have "\<exists>st1. processVerification exampleHost Security ''h1'' [1, 0, 0, 0] None futureStore
            = (grantedResult scoring09 (Fin d09), st1) \<and>
          processVerification exampleHost Security ''h1'' [1, 0, 0, 0] None st1
            = (alreadyClearedResult
                 (scoring09\<lparr>checkpoints := set_checkpoint Security True (checkpoints scoring09)\<rparr>)
                 (Fin d09), st1) \<and>
          length (staff_logs st1) = 1"
    using w(3) by auto
  with distinct_futureStore valid_scoring09 pre c w(1) w(2) show ?thesis by simp
qed

text \<open>
  Two verifications at the security checkpoint of one enrolled passenger: GRANTED, then
  ALREADY_CLEARED, and the log holds one entry afterwards, not two.
\<close>

theorem verify_twice_one_entry_counterexample:
  "outcome_of (fst (processVerification exampleHost Security ''h1'' [1, 0, 0, 0] None futureStore))
     = GRANTED \<and>
   outcome_of (fst (processVerification exampleHost Security ''h1'' [1, 0, 0, 0] None
     (snd (processVerification exampleHost Security ''h1'' [1, 0, 0, 0] None futureStore))))
     = ALREADY_CLEARED \<and>
   staff_logs futureStore = [] \<and>
   length (staff_logs (snd (processVerification exampleHost Security ''h1'' [1, 0, 0, 0] None
     (snd (processVerification exampleHost Security ''h1'' [1, 0, 0, 0] None futureStore))))) = 1"
  by (simp add: verify_futureStore grantEffect_futureStore verify_clearedStore)
     (simp add: clearedStore_def futureStore_def)

section \<open>The precedence invariant\<close>

lemma findIndex_map: "findIndex (\<lambda>x. P (f x)) xs = findIndex P (map f xs)"
  by (induction xs) simp_all

lemma findIndex_same_ids:
  assumes "map id_p ps' = map id_p ps"
  shows "findIndex (\<lambda>q. id_p q = a) ps' = findIndex (\<lambda>q. id_p q = a) ps"
  using findIndex_map[of "\<lambda>y. y = a" id_p ps'] findIndex_map[of "\<lambda>y. y = a" id_p ps] assms
  by simp

lemma map_id_p_update:
  assumes "i < length ps"
  shows "map id_p (ps[i := withCheckpoint cp b (ps ! i)]) = map id_p ps"
  using assms by (simp add: map_update list_update_same_conv)

lemma precedence_withCheckpoint:
  assumes "precedence p" "prerequisitesMet cp (checkpoints p)"
  shows "precedence (withCheckpoint cp True p)"
  using assms by (cases cp) (auto simp: precedence_def)

lemma precedence_withCheckpoint_early:
  assumes "precedence p" "cp \<noteq> Boarding"
  shows "precedence (withCheckpoint cp True p)"
  using assms by (cases cp) (auto simp: precedence_def)

lemma prerequisites_not_untouched:
  assumes "prerequisitesMet Boarding c"
  shows "c \<noteq> noCheckpoints"
  using assms by (auto simp: noCheckpoints_def)

lemma grant_preserves:
  assumes inv: "\<forall>p \<in> set (passengers st). precedence p"
    and sh: "shadowedUntouched (passengers st)"
    and s: "selectBest fh emb fp (findPassengersByBiometrics fh fp st) = Some (best, sim)"
    and pre: "prerequisitesMet cp (checkpoints best)"
  shows "(\<forall>p \<in> set (passengers (grantEffect h cp best sim st)). precedence p) \<and>
         shadowedUntouched (passengers (grantEffect h cp best sim st))"
proof (cases "setItem_passengers h")
  case False
  with granted_store[OF s, of h cp] inv sh show ?thesis by auto
next
  case True
  let ?ps = "passengers st"
  from granted_store[OF s, of h cp] True obtain i where
    i: "findIndex (\<lambda>q. id_p q = id_p best) ?ps = Some i" and
    e: "passengers (grantEffect h cp best sim st) = ?ps[i := withCheckpoint cp True (?ps ! i)]"
    by auto
  have il: "i < length ?ps" and idi: "id_p (?ps ! i) = id_p best"
    using i by (simp_all add: findIndex_Some_iff)
  have q: "precedence (withCheckpoint cp True (?ps ! i))"
  proof (cases "cp = Boarding")
    case False
    with inv il show ?thesis by (simp add: precedence_withCheckpoint_early)
  next
    case True
    obtain k where k: "k < length ?ps" "?ps ! k = best"
      using selected_in_store[OF s] by (auto simp: in_set_conv_nth)
    have "checkpoints best \<noteq> noCheckpoints"
      using pre True by (simp add: prerequisites_not_untouched)
    with sh k have "findIndex (\<lambda>q. id_p q = id_p (?ps ! k)) ?ps = Some k"
      unfolding shadowedUntouched_def by blast
    with i k(2) have "?ps ! i = best" by simp
    moreover have "precedence best" using inv selected_in_store[OF s] by blast
    ultimately show ?thesis using pre by (simp add: precedence_withCheckpoint)
  qed
  have p: "\<forall>p \<in> set (?ps[i := withCheckpoint cp True (?ps ! i)]). precedence p"
    using inv q by (auto dest!: set_update_subset_insert[THEN subsetD])
  have ids: "map id_p (?ps[i := withCheckpoint cp True (?ps ! i)]) = map id_p ?ps"
    using il by (rule map_id_p_update)
  have "shadowedUntouched (?ps[i := withCheckpoint cp True (?ps ! i)])"
    unfolding shadowedUntouched_def
  proof (intro allI impI)
    let ?ps' = "?ps[i := withCheckpoint cp True (?ps ! i)]"
    fix k assume k: "k < length ?ps'"
      and n: "findIndex (\<lambda>q. id_p q = id_p (?ps' ! k)) ?ps' \<noteq> Some k"
    have idk: "id_p (?ps' ! k) = id_p (?ps ! k)"
      using k by (cases "k = i") simp_all
    have n': "findIndex (\<lambda>q. id_p q = id_p (?ps ! k)) ?ps \<noteq> Some k"
      using n by (simp add: idk findIndex_same_ids[OF ids])
    have "k \<noteq> i" using n' i idi by auto
    then have "?ps' ! k = ?ps ! k" by simp
    moreover have "checkpoints (?ps ! k) = noCheckpoints"
      using sh k n' unfolding shadowedUntouched_def by simp
    ultimately show "checkpoints (?ps' ! k) = noCheckpoints" by simp
  qed
  with p e show ?thesis by simp
qed

lemma processVerification_preserves:
  assumes "\<forall>p \<in> set (passengers st). precedence p" "shadowedUntouched (passengers st)"
  shows "(\<forall>p \<in> set (passengers (snd (processVerification h cp fh emb fp st))). precedence p) \<and>
         shadowedUntouched (passengers (snd (processVerification h cp fh emb fp st)))"
proof (cases "outcome_of (fst (processVerification h cp fh emb fp st)) = GRANTED")
  case False
  with assms show ?thesis by (simp add: not_granted_unchanged)
next
  case True
  from granted_branch[OF True] obtain best sim where
    s: "selectBest fh emb fp (findPassengersByBiometrics fh fp st) = Some (best, sim)" and
    pre: "prerequisitesMet cp (checkpoints best)" and
    p: "processVerification h cp fh emb fp st = (grantedResult best sim, grantEffect h cp best sim st)"
    by blast
  from grant_preserves[OF assms s pre, of h] show ?thesis by (simp add: p)
qed

lemma verifyAll_preserves:
  assumes "\<forall>p \<in> set (passengers st). precedence p" "shadowedUntouched (passengers st)"
  shows "(\<forall>p \<in> set (passengers (verifyAll calls st)). precedence p) \<and>
         shadowedUntouched (passengers (verifyAll calls st))"
  using assms
proof (induction calls arbitrary: st)
  case Nil
  then show ?case by simp
next
  case (Cons c calls)
  obtain h cp fh emb fp where c: "c = (h, cp, fh, emb, fp)" by (cases c) auto
  from processVerification_preserves[OF Cons.prems, of h cp fh emb fp]
  show ?case unfolding c verifyAll.simps by (intro Cons.IH) simp_all
qed

lemma prerequisite_missing_branch:
  assumes "outcome_of (fst (processVerification h cp fh emb fp st)) = PREREQUISITE_MISSING"
  shows "\<exists>best sim. selectBest fh emb fp (findPassengersByBiometrics fh fp st) = Some (best, sim) \<and>
           \<not> prerequisitesMet cp (checkpoints best)"
proof (cases "findPassengersByBiometrics fh fp st = []")
  case True
  with assms show ?thesis by (simp add: processVerification_empty)
next
  case False
  then obtain best sim where
    s: "selectBest fh emb fp (findPassengersByBiometrics fh fp st) = Some (best, sim)"
    using selectBest_Some by blast
  show ?thesis
    using assms s unfolding processVerification_selected[OF s]
    by (cases cp) (auto split: if_splits)
qed

text \<open>
  Claim C3: starting from a store in which no record has a checkpoint cleared, after
  any sequence of verifications every record with \<open>boarding\<close> set has \<open>security\<close> and
  \<open>immigration\<close> set. The reason is in the single call, on any store: a grant happens
  only when the selected record meets the prerequisites of the checkpoint (security
  for immigration, security and immigration for boarding); a selected record with a
  valid flight that does not meet them gives PREREQUISITE_MISSING, and that outcome
  leaves the stores unchanged.
\<close>

theorem boarding_implies_security_and_immigration:
  assumes "\<forall>p \<in> set (passengers st).
             checkpoints p = \<lparr> security = False, immigration = False, boarding = False \<rparr>"
  shows "(\<forall>p \<in> set (passengers (verifyAll calls st)).
            boarding (checkpoints p) \<longrightarrow> security (checkpoints p) \<and> immigration (checkpoints p)) \<and>
         (outcome_of (fst (processVerification h cp fh emb fp st0)) = GRANTED \<longrightarrow>
            (\<exists>best sim. selectBest fh emb fp (findPassengersByBiometrics fh fp st0) = Some (best, sim) \<and>
               prerequisitesMet cp (checkpoints best))) \<and>
         (selectBest fh emb fp (findPassengersByBiometrics fh fp st0) = Some (b, r) \<and>
            isFlightValid h (departureTime b) \<and> \<not> prerequisitesMet cp (checkpoints b) \<longrightarrow>
            outcome_of (fst (processVerification h cp fh emb fp st0)) = PREREQUISITE_MISSING) \<and>
         (outcome_of (fst (processVerification h cp fh emb fp st0)) = PREREQUISITE_MISSING \<longrightarrow>
            snd (processVerification h cp fh emb fp st0) = st0)"
proof (intro conjI impI)
  have "\<forall>p \<in> set (passengers st). precedence p"
    using assms by (simp add: precedence_def)
  moreover have "shadowedUntouched (passengers st)"
    using assms by (simp add: shadowedUntouched_def noCheckpoints_def)
  ultimately have "\<forall>p \<in> set (passengers (verifyAll calls st)). precedence p"
    using verifyAll_preserves by blast
  then show "\<forall>p \<in> set (passengers (verifyAll calls st)).
            boarding (checkpoints p) \<longrightarrow> security (checkpoints p) \<and> immigration (checkpoints p)"
    by (simp add: precedence_def)
next
  assume "outcome_of (fst (processVerification h cp fh emb fp st0)) = GRANTED"
  from granted_branch[OF this]
  show "\<exists>best sim. selectBest fh emb fp (findPassengersByBiometrics fh fp st0) = Some (best, sim) \<and>
               prerequisitesMet cp (checkpoints best)"
    by blast
next
  assume a: "selectBest fh emb fp (findPassengersByBiometrics fh fp st0) = Some (b, r) \<and>
            isFlightValid h (departureTime b) \<and> \<not> prerequisitesMet cp (checkpoints b)"
  then have s: "selectBest fh emb fp (findPassengersByBiometrics fh fp st0) = Some (b, r)" by simp
  show "outcome_of (fst (processVerification h cp fh emb fp st0)) = PREREQUISITE_MISSING"
    using a unfolding processVerification_selected[OF s] by (cases cp) auto
next
  assume "outcome_of (fst (processVerification h cp fh emb fp st0)) = PREREQUISITE_MISSING"
  then have "outcome_of (fst (processVerification h cp fh emb fp st0)) \<noteq> GRANTED" by simp
  then show "snd (processVerification h cp fh emb fp st0) = st0"
    by (rule not_granted_unchanged)
qed


lemma select_clearedStore:
  "selectBest ''h1'' [1, 0, 0, 0] None (findPassengersByBiometrics ''h1'' None clearedStore)
     = Some (withCheckpoint Security True scoring09, Fin d09)"
proof -
  let ?p = "withCheckpoint Security True scoring09"
  have c: "findPassengersByBiometrics ''h1'' None clearedStore = [?p]"
    by (simp add: findPassengersByBiometrics_def clearedStore_def)
       (simp add: scoring09_def examplePassenger_def)
  have "simOf [1, 0, 0, 0] ?p = Some (Fin d09)"
    using simOf_scoring09 by (simp add: simOf_def)
  then show ?thesis using d09_pos by (simp add: c selectBest_def bestMatchLoop_Cons)
qed

lemma checkpoints_cleared:
  "checkpoints (withCheckpoint Security True scoring09)
     = \<lparr> security = True, immigration = False, boarding = False \<rparr>"
  by (simp add: scoring09_def examplePassenger_def noCheckpoints_def)

lemma boarding_clearedStore:
  "processVerification exampleHost Boarding ''h1'' [1, 0, 0, 0] None clearedStore =
     (bothFirstResult (withCheckpoint Security True scoring09) (Fin d09), clearedStore)"
  using valid_scoring09
  by (simp add: processVerification_selected[OF select_clearedStore])
     (simp add: scoring09_def examplePassenger_def noCheckpoints_def)

theorem boarding_implies_security_and_immigration_witness:
  "passengers futureStore = [scoring09] \<and>
   checkpoints scoring09 = \<lparr> security = False, immigration = False, boarding = False \<rparr> \<and>
   list_all precedence (passengers (verifyAll
        [(exampleHost, Security, ''h1'', [1, 0, 0, 0], None),
         (exampleHost, Boarding, ''h1'', [1, 0, 0, 0], None)] futureStore)) \<and>
   passengers (verifyAll
        [(exampleHost, Security, ''h1'', [1, 0, 0, 0], None),
         (exampleHost, Boarding, ''h1'', [1, 0, 0, 0], None)] futureStore)
     = [withCheckpoint Security True scoring09] \<and>
   outcome_of (fst (processVerification exampleHost Security ''h1'' [1, 0, 0, 0] None futureStore))
     = GRANTED \<and>
   isFlightValid exampleHost (departureTime (withCheckpoint Security True scoring09)) \<and>
   \<not> prerequisitesMet Boarding (checkpoints (withCheckpoint Security True scoring09)) \<and>
   outcome_of (fst (processVerification exampleHost Boarding ''h1'' [1, 0, 0, 0] None clearedStore))
     = PREREQUISITE_MISSING \<and>
   snd (processVerification exampleHost Boarding ''h1'' [1, 0, 0, 0] None clearedStore) = clearedStore"
proof -
  let ?calls = "[(exampleHost, Security, ''h1'', [1, 0, 0, 0], None),
                 (exampleHost, Boarding, ''h1'', [1, 0, 0, 0], None)]"
  have a: "\<forall>p \<in> set (passengers futureStore).
      checkpoints p = \<lparr> security = False, immigration = False, boarding = False \<rparr>"
    by (simp add: futureStore_def scoring09_def examplePassenger_def noCheckpoints_def)
  have g: "outcome_of (fst (processVerification exampleHost Security ''h1'' [1, 0, 0, 0] None futureStore)) = GRANTED"
    by (simp add: verify_futureStore)
  have v: "isFlightValid exampleHost (departureTime (withCheckpoint Security True scoring09))"
    using valid_scoring09 by simp
  have n: "\<not> prerequisitesMet Boarding (checkpoints (withCheckpoint Security True scoring09))"
    by (simp only: checkpoints_cleared) simp
  have e: "passengers (verifyAll ?calls futureStore) = [withCheckpoint Security True scoring09]"
    by (simp add: verify_futureStore grantEffect_futureStore boarding_clearedStore)
       (simp add: clearedStore_def)
  note t = boarding_implies_security_and_immigration[OF a, of ?calls exampleHost Boarding
      "''h1''" "[1, 0, 0, 0]" None clearedStore "withCheckpoint Security True scoring09" "Fin d09"]
  have m: "outcome_of (fst (processVerification exampleHost Boarding ''h1'' [1, 0, 0, 0] None clearedStore))
     = PREREQUISITE_MISSING"
    using t select_clearedStore v n by blast
  have u: "snd (processVerification exampleHost Boarding ''h1'' [1, 0, 0, 0] None clearedStore) = clearedStore"
    using t m by blast
  have "\<forall>p \<in> set (passengers (verifyAll ?calls futureStore)).
      boarding (checkpoints p) \<longrightarrow> security (checkpoints p) \<and> immigration (checkpoints p)"
    using t by blast
  then have i: "list_all precedence (passengers (verifyAll ?calls futureStore))"
    unfolding list_all_iff precedence_def .
  have f: "passengers futureStore = [scoring09]"
    "checkpoints scoring09 = \<lparr> security = False, immigration = False, boarding = False \<rparr>"
    by (simp_all add: futureStore_def scoring09_def examplePassenger_def noCheckpoints_def)
  from f i e g v n m u show ?thesis by blast
qed

section \<open>Deleting and sweeping\<close>

text \<open>
  Claim C9, as the code has it: \<^verbatim>\<open>deletePassengerData\<close> never reports a missing id.
  When the write succeeds it returns \<open>true\<close>, whether or not a record with the id was
  present; no record with the id remains, and without such a record the store is
  unchanged. It returns \<open>false\<close> exactly when the write fails (the exception is
  caught), and then the store is unchanged.
\<close>

theorem delete_reports_no_absence:
  "(fst (deletePassengerData h pid st) \<longleftrightarrow> setItem_passengers h) \<and>
   (setItem_passengers h \<longrightarrow>
      passengers (snd (deletePassengerData h pid st)) = filter (\<lambda>p. id_p p \<noteq> pid) (passengers st) \<and>
      staff_logs (snd (deletePassengerData h pid st)) = staff_logs st) \<and>
   (\<not> setItem_passengers h \<longrightarrow> snd (deletePassengerData h pid st) = st) \<and>
   ((\<forall>p \<in> set (passengers st). id_p p \<noteq> pid) \<longrightarrow> snd (deletePassengerData h pid st) = st)"
proof -
  have "filter (\<lambda>p. id_p p \<noteq> pid) (passengers st) = passengers st"
    if "\<forall>p \<in> set (passengers st). id_p p \<noteq> pid"
    using that by (simp add: filter_id_conv)
  then show ?thesis by (simp add: deletePassengerData_def Let_def)
qed

theorem delete_reports_no_absence_witness:
  "setItem_passengers exampleHost \<and>
   id_p scoring09 \<noteq> ''TRU-404'' \<and>
   passengers futureStore = [scoring09] \<and>
   fst (deletePassengerData exampleHost ''TRU-404'' futureStore) \<and>
   snd (deletePassengerData exampleHost ''TRU-404'' futureStore) = futureStore \<and>
   \<not> setItem_passengers (exampleHost\<lparr>setItem_passengers := False\<rparr>) \<and>
   \<not> fst (deletePassengerData (exampleHost\<lparr>setItem_passengers := False\<rparr>) ''TRU-9'' futureStore) \<and>
   snd (deletePassengerData (exampleHost\<lparr>setItem_passengers := False\<rparr>) ''TRU-9'' futureStore)
     = futureStore \<and>
   passengers (snd (deletePassengerData exampleHost ''TRU-9'' futureStore)) = []"
proof -
  have w: "setItem_passengers exampleHost" by (simp add: exampleHost_def)
  have i: "id_p scoring09 \<noteq> ''TRU-404''" "id_p scoring09 = ''TRU-9''"
    by (simp_all add: scoring09_def examplePassenger_def)
  have p: "passengers futureStore = [scoring09]" by (simp add: futureStore_def)
  have a: "\<forall>p \<in> set (passengers futureStore). id_p p \<noteq> ''TRU-404''" using i p by simp
  note t1 = delete_reports_no_absence[of exampleHost "''TRU-404''" futureStore]
  note t2 = delete_reports_no_absence[of "exampleHost\<lparr>setItem_passengers := False\<rparr>" "''TRU-9''" futureStore]
  note t3 = delete_reports_no_absence[of exampleHost "''TRU-9''" futureStore]
  have 1: "fst (deletePassengerData exampleHost ''TRU-404'' futureStore)"
    "snd (deletePassengerData exampleHost ''TRU-404'' futureStore) = futureStore"
    using t1 w a by blast+
  have n: "\<not> setItem_passengers (exampleHost\<lparr>setItem_passengers := False\<rparr>)" by simp
  have 2: "\<not> fst (deletePassengerData (exampleHost\<lparr>setItem_passengers := False\<rparr>) ''TRU-9'' futureStore)"
    "snd (deletePassengerData (exampleHost\<lparr>setItem_passengers := False\<rparr>) ''TRU-9'' futureStore) = futureStore"
    using t2 n by blast+
  have 3: "passengers (snd (deletePassengerData exampleHost ''TRU-9'' futureStore)) = []"
    using t3 w by (simp add: p i)
  from w i(1) p 1 n 2 3 show ?thesis by simp
qed

text \<open>Deleting an id that no record has: the result is \<open>true\<close>.\<close>

theorem delete_absent_counterexample:
  "passengers futureStore = [scoring09] \<and> id_p scoring09 \<noteq> ''TRU-404'' \<and>
   deletePassengerData exampleHost ''TRU-404'' futureStore = (True, futureStore)"
  by (simp add: deletePassengerData_def futureStore_def scoring09_def examplePassenger_def
      exampleHost_def)

lemma cleanup_eq:
  "cleanupExpiredPassengers h st =
     (if setItem_passengers h
      then (int (length (filter (\<lambda>p. \<not> isFlightValid h (departureTime p)) (passengers st))),
            st\<lparr>passengers := filter (\<lambda>p. isFlightValid h (departureTime p)) (passengers st)\<rparr>)
      else (0, st))"
proof -
  have "int (length (passengers st))
          - int (length (filter (\<lambda>p. isFlightValid h (departureTime p)) (passengers st)))
        = int (length (filter (\<lambda>p. \<not> isFlightValid h (departureTime p)) (passengers st)))"
    using sum_length_filter_compl[of "\<lambda>p. isFlightValid h (departureTime p)" "passengers st"]
    by simp
  then show ?thesis
    by (simp add: cleanupExpiredPassengers_def isFlightValid_def Let_def)
qed

text \<open>
  Claim C8, as the code has it: when the write succeeds the sweep keeps, in order,
  exactly the records whose departure time is a valid date strictly after the clock,
  removes all others (departure at or before the clock, or not a valid date), and
  returns the number removed. A second sweep at a clock not later than the first
  removes nothing and returns 0; at a later clock it removes the records that departed
  in between and returns their number. On an empty store it returns 0. A failing write
  gives 0 and leaves the store as it was.
\<close>

theorem sweep_removes_departed:
  "(setItem_passengers h \<longrightarrow>
      passengers (snd (cleanupExpiredPassengers h st)) =
        filter (\<lambda>p. \<exists>d. Date_parse h (departureTime p) = Some d \<and> now h < d) (passengers st) \<and>
      fst (cleanupExpiredPassengers h st) =
        int (length (filter (\<lambda>p. \<not> (\<exists>d. Date_parse h (departureTime p) = Some d \<and> now h < d))
                      (passengers st))) \<and>
      staff_logs (snd (cleanupExpiredPassengers h st)) = staff_logs st) \<and>
   (\<not> setItem_passengers h \<longrightarrow> cleanupExpiredPassengers h st = (0, st)) \<and>
   (setItem_passengers h \<and> setItem_passengers h2 \<and> Date_parse h2 = Date_parse h \<longrightarrow>
      fst (cleanupExpiredPassengers h2 (snd (cleanupExpiredPassengers h st))) =
        int (length (filter (\<lambda>p. \<exists>d. Date_parse h (departureTime p) = Some d \<and> now h < d \<and> d \<le> now h2)
                      (passengers st))) \<and>
      (now h2 \<le> now h \<longrightarrow>
         cleanupExpiredPassengers h2 (snd (cleanupExpiredPassengers h st)) =
           (0, snd (cleanupExpiredPassengers h st)))) \<and>
   (passengers st = [] \<longrightarrow> fst (cleanupExpiredPassengers h st) = 0 \<and> snd (cleanupExpiredPassengers h st) = st)"
proof -
  have v: "isFlightValid h dt \<longleftrightarrow> (\<exists>d. Date_parse h dt = Some d \<and> now h < d)" for h dt
    by (simp add: isFlightValid_def split: option.splits)
  have a: "setItem_passengers h \<longrightarrow>
      passengers (snd (cleanupExpiredPassengers h st)) =
        filter (\<lambda>p. \<exists>d. Date_parse h (departureTime p) = Some d \<and> now h < d) (passengers st) \<and>
      fst (cleanupExpiredPassengers h st) =
        int (length (filter (\<lambda>p. \<not> (\<exists>d. Date_parse h (departureTime p) = Some d \<and> now h < d))
                      (passengers st))) \<and>
      staff_logs (snd (cleanupExpiredPassengers h st)) = staff_logs st"
    by (simp add: cleanup_eq v)
  have b: "\<not> setItem_passengers h \<longrightarrow> cleanupExpiredPassengers h st = (0, st)"
    by (simp add: cleanup_eq)
  have c: "fst (cleanupExpiredPassengers h2 (snd (cleanupExpiredPassengers h st))) =
        int (length (filter (\<lambda>p. \<exists>d. Date_parse h (departureTime p) = Some d \<and> now h < d \<and> d \<le> now h2)
                      (passengers st)))"
    if w: "setItem_passengers h" "setItem_passengers h2" "Date_parse h2 = Date_parse h"
  proof -
    have "filter (\<lambda>p. isFlightValid h (departureTime p) \<and> \<not> isFlightValid h2 (departureTime p))
            (passengers st)
          = filter (\<lambda>p. \<exists>d. Date_parse h (departureTime p) = Some d \<and> now h < d \<and> d \<le> now h2)
              (passengers st)"
      by (rule filter_cong) (auto simp: v w(3))
    then show ?thesis
      using w(1,2) by (simp add: cleanup_eq)
  qed
  have d: "cleanupExpiredPassengers h2 (snd (cleanupExpiredPassengers h st)) =
           (0, snd (cleanupExpiredPassengers h st))"
    if w: "setItem_passengers h" "setItem_passengers h2" "Date_parse h2 = Date_parse h"
      and le: "now h2 \<le> now h"
  proof -
    have i: "isFlightValid h2 dt" if "isFlightValid h dt" for dt
      using that le by (auto simp: v w(3))
    have "filter (\<lambda>p. isFlightValid h2 (departureTime p))
            (filter (\<lambda>p. isFlightValid h (departureTime p)) (passengers st))
          = filter (\<lambda>p. isFlightValid h (departureTime p)) (passengers st)"
      using i by (simp add: filter_id_conv del: filter_filter)
    moreover have "filter (\<lambda>p. \<not> isFlightValid h2 (departureTime p))
            (filter (\<lambda>p. isFlightValid h (departureTime p)) (passengers st)) = []"
      using i by (simp add: filter_empty_conv del: filter_filter)
    ultimately show ?thesis using w(1,2) by (simp add: cleanup_eq del: filter_filter)
  qed
  have e: "passengers st = [] \<longrightarrow>
             fst (cleanupExpiredPassengers h st) = 0 \<and> snd (cleanupExpiredPassengers h st) = st"
    by (simp add: cleanup_eq)
  from a b c d e show ?thesis by blast
qed


lemma sweep_mixedStore:
  "cleanupExpiredPassengers exampleHost mixedStore = (2, futureStore)"
  by (simp add: cleanup_eq isFlightValid_def)
     (simp add: mixedStore_def futureStore_def exampleHost_def scoring09_def undated_def
        examplePassenger_def)

lemma sweep_futureStore:
  "cleanupExpiredPassengers exampleHost futureStore = (0, futureStore)"
  by (simp add: cleanup_eq isFlightValid_def)
     (simp add: futureStore_def exampleHost_def scoring09_def examplePassenger_def)

lemma sweep_later:
  "cleanupExpiredPassengers laterHost futureStore = (1, futureStore\<lparr>passengers := []\<rparr>)"
  by (simp add: cleanup_eq isFlightValid_def)
     (simp add: futureStore_def laterHost_def exampleHost_def scoring09_def examplePassenger_def)

theorem sweep_removes_departed_witness:
  "setItem_passengers exampleHost \<and> setItem_passengers laterHost \<and>
   Date_parse laterHost = Date_parse exampleHost \<and>
   now exampleHost \<le> now exampleHost \<and>
   cleanupExpiredPassengers exampleHost mixedStore = (2, futureStore) \<and>
   cleanupExpiredPassengers exampleHost (snd (cleanupExpiredPassengers exampleHost mixedStore))
     = (0, futureStore) \<and>
   fst (cleanupExpiredPassengers laterHost (snd (cleanupExpiredPassengers exampleHost mixedStore))) = 1 \<and>
   \<not> setItem_passengers (exampleHost\<lparr>setItem_passengers := False\<rparr>) \<and>
   cleanupExpiredPassengers (exampleHost\<lparr>setItem_passengers := False\<rparr>) mixedStore = (0, mixedStore) \<and>
   passengers (futureStore\<lparr>passengers := []\<rparr>) = [] \<and>
   cleanupExpiredPassengers exampleHost (futureStore\<lparr>passengers := []\<rparr>)
     = (0, futureStore\<lparr>passengers := []\<rparr>)"
proof -
  have w: "setItem_passengers exampleHost" "setItem_passengers laterHost"
    "Date_parse laterHost = Date_parse exampleHost" "now exampleHost \<le> now exampleHost"
    "\<not> setItem_passengers (exampleHost\<lparr>setItem_passengers := False\<rparr>)"
    by (simp_all add: exampleHost_def laterHost_def)
  note t = sweep_removes_departed[of exampleHost mixedStore exampleHost]
  have 1: "cleanupExpiredPassengers exampleHost (snd (cleanupExpiredPassengers exampleHost mixedStore))
     = (0, futureStore)"
    using t w(1,4) by (simp add: sweep_mixedStore)
  have 2: "fst (cleanupExpiredPassengers laterHost (snd (cleanupExpiredPassengers exampleHost mixedStore))) = 1"
    by (simp add: sweep_mixedStore sweep_later)
  have 3: "cleanupExpiredPassengers (exampleHost\<lparr>setItem_passengers := False\<rparr>) mixedStore = (0, mixedStore)"
    using sweep_removes_departed[of "exampleHost\<lparr>setItem_passengers := False\<rparr>" mixedStore exampleHost] w(5)
    by blast
  have 4: "cleanupExpiredPassengers exampleHost (futureStore\<lparr>passengers := []\<rparr>)
     = (0, futureStore\<lparr>passengers := []\<rparr>)"
    using sweep_removes_departed[of exampleHost "futureStore\<lparr>passengers := []\<rparr>" exampleHost]
    by (simp add: prod_eq_iff)
  from w 1 2 3 4 sweep_mixedStore show ?thesis by simp
qed

text \<open>
  A sweep that removes nothing, followed by a sweep at a later clock: the flight has
  departed in between, and the second sweep removes one record.
\<close>

theorem second_sweep_later_counterexample:
  "now exampleHost \<le> now laterHost \<and>
   cleanupExpiredPassengers exampleHost futureStore = (0, futureStore) \<and>
   cleanupExpiredPassengers laterHost (snd (cleanupExpiredPassengers exampleHost futureStore))
     = (1, futureStore\<lparr>passengers := []\<rparr>)"
  by (simp add: sweep_futureStore sweep_later) (simp add: exampleHost_def laterHost_def)

section \<open>Enrollment\<close>

lemma savePassengerData_Inr:
  assumes "savePassengerData h p st = Inr st'"
  shows "setItem_passengers h" "staff_logs st' = staff_logs st"
    "p \<in> set (passengers st')" "set (passengers st') \<subseteq> insert p (set (passengers st))"
    "(\<forall>q \<in> set (passengers st). id_p q \<noteq> id_p p) \<longrightarrow> passengers st' = passengers st @ [p]"
proof -
  show w: "setItem_passengers h"
    using assms by (simp add: savePassengerData_def Let_def split: if_splits)
  show "staff_logs st' = staff_logs st"
    using assms by (auto simp: savePassengerData_def Let_def split: if_splits)
  show "p \<in> set (passengers st')"
  proof (cases "findIndex (\<lambda>q. id_p q = id_p p) (passengers st)")
    case None
    with assms w show ?thesis by (auto simp: savePassengerData_def Let_def)
  next
    case (Some i)
    then have "i < length (passengers st)" by (simp add: findIndex_Some_iff)
    with assms w Some show ?thesis by (auto simp: savePassengerData_def Let_def set_update_memI)
  qed
  show "set (passengers st') \<subseteq> insert p (set (passengers st))"
    using assms w set_update_subset_insert
    by (auto simp: savePassengerData_def Let_def split: option.splits) fastforce
  show "(\<forall>q \<in> set (passengers st). id_p q \<noteq> id_p p) \<longrightarrow> passengers st' = passengers st @ [p]"
  proof
    assume "\<forall>q \<in> set (passengers st). id_p q \<noteq> id_p p"
    then have "findIndex (\<lambda>q. id_p q = id_p p) (passengers st) = None"
      by (simp add: findIndex_None_iff)
    with assms w show "passengers st' = passengers st @ [p]"
      by (auto simp: savePassengerData_def Let_def)
  qed
qed

lemma savePassengerData_distinct:
  assumes "distinct (map id_p (passengers st))" "savePassengerData h p st = Inr st'"
  shows "distinct (map id_p (passengers st'))"
proof (cases "findIndex (\<lambda>q. id_p q = id_p p) (passengers st)")
  case None
  then have "id_p p \<notin> id_p ` set (passengers st)" by (auto simp: findIndex_None_iff)
  with assms None show ?thesis
    by (auto simp: savePassengerData_def Let_def split: if_splits)
next
  case (Some i)
  then have "i < length (passengers st)" "id_p (passengers st ! i) = id_p p"
    by (simp_all add: findIndex_Some_iff)
  then have "map id_p ((passengers st)[i := p]) = map id_p (passengers st)"
    by (simp add: map_update list_update_same_conv)
  with assms Some show ?thesis
    by (auto simp: savePassengerData_def Let_def split: if_splits)
qed

lemma completeEnrollment_None:
  "completeEnrollment h u st = (None, st') \<Longrightarrow> st' = st"
  by (auto simp: completeEnrollment_def Let_def split: option.splits if_splits sum.splits)

lemma completeEnrollment_Some:
  assumes "completeEnrollment h u st = (Some p, st')"
  shows "savePassengerData h p st = Inr st'"
    "firstName p = firstName_f (formData u)" "lastName p = lastName_f (formData u)"
    "passportNumber p = passportNumber_f (formData u)"
    "flightNumber p = flightNumber_f (formData u)"
    "checkpoints p = \<lparr> security = False, immigration = False, boarding = False \<rparr>"
  using assms
  by (auto simp: completeEnrollment_def Let_def split: option.splits if_splits sum.splits)

lemma completeEnrollment_ready:
  assumes "faceData u = Some fd" "fingerprintHash_e u = Some fph" "fph \<noteq> []"
    "setItem_passengers h"
  shows "\<exists>st'. completeEnrollment h u st =
           (Some \<lparr> id_p = ''TRU-'' @ randomUUID h,
                   passportNumber = passportNumber_f (formData u),
                   firstName = firstName_f (formData u),
                   lastName = lastName_f (formData u),
                   flightNumber = flightNumber_f (formData u),
                   gate = gate_f (formData u),
                   departureTime = departureTime_f (formData u),
                   biometrics = \<lparr> faceHash = hash fd, fingerprintHash = fph,
                                   faceEmbedding = Some (embedding fd), timestamp = now h \<rparr>,
                   enrollmentTime = Date_now h,
                   checkpoints = \<lparr> security = False, immigration = False, boarding = False \<rparr>,
                   guardianId = None \<rparr>, st')"
  using assms by (simp add: completeEnrollment_def savePassengerData_def Let_def)

lemma orderly_initial: "orderly initialEnrollment"
  by (simp add: orderly_def formChecked_def initialEnrollment_def)

text \<open>Whatever the run, a record it stores has been built by \<^verbatim>\<open>completeEnrollment\<close>.\<close>

lemma enrollmentEvent_store:
  assumes "enrollmentEvent h ev (u, st) = (u', st')"
  shows "st' = st \<or>
         (\<exists>p. ev = CompleteEnrollment \<and> currentStep u = Complete \<and> \<not> isProcessing u \<and>
              u' = initialEnrollment \<and> completeEnrollment h u st = (Some p, st'))"
proof (cases ev)
  case (Input fld v)
  with assms show ?thesis by (auto split: if_splits)
next
  case ContinueToFaceScan
  with assms show ?thesis by (auto split: if_splits)
next
  case Back
  with assms show ?thesis by (auto split: if_splits step.splits)
next
  case CaptureFace
  with assms show ?thesis by (auto split: if_splits)
next
  case (FaceProcessed r)
  with assms show ?thesis by (auto split: if_splits option.splits)
next
  case ChooseFingerprint
  with assms show ?thesis by (auto split: if_splits)
next
  case (FingerprintProcessed r)
  with assms show ?thesis by (auto split: if_splits option.splits)
next
  case CompleteEnrollment
  show ?thesis
  proof (cases "currentStep u = Complete \<and> \<not> isProcessing u")
    case False
    with assms CompleteEnrollment show ?thesis by auto
  next
    case True
    obtain r st1 where c: "completeEnrollment h u st = (r, st1)"
      by (cases "completeEnrollment h u st") auto
    show ?thesis
    proof (cases r)
      case None
      with c have "st1 = st" by (simp add: completeEnrollment_None)
      with assms CompleteEnrollment True c None show ?thesis by simp
    next
      case (Some p)
      with assms CompleteEnrollment True c show ?thesis by simp
    qed
  qed
qed

lemma enrollmentEvent_orderly:
  assumes "orderly u" "ev = ChooseFingerprint \<longrightarrow> \<not> isProcessing u"
    "enrollmentEvent h ev (u, st) = (u', st')"
  shows "orderly u'"
proof (cases ev)
  case (Input fld v)
  with assms show ?thesis by (auto simp: orderly_def formChecked_def split: if_splits)
next
  case ContinueToFaceScan
  with assms show ?thesis by (auto simp: orderly_def formChecked_def split: if_splits)
next
  case Back
  with assms show ?thesis
    by (auto simp: orderly_def formChecked_def split: if_splits step.splits)
next
  case CaptureFace
  with assms show ?thesis by (auto simp: orderly_def formChecked_def split: if_splits)
next
  case (FaceProcessed r)
  with assms show ?thesis
    by (auto simp: orderly_def formChecked_def split: if_splits option.splits)
next
  case ChooseFingerprint
  with assms show ?thesis by (auto simp: orderly_def formChecked_def split: if_splits)
next
  case (FingerprintProcessed r)
  with assms show ?thesis
    by (auto simp: orderly_def formChecked_def split: if_splits option.splits)
next
  case CompleteEnrollment
  from enrollmentEvent_store[OF assms(3)] have "u' = u \<or> u' = initialEnrollment"
    using assms(3) CompleteEnrollment
    by (auto split: if_splits option.splits prod.splits)
  with assms(1) orderly_initial show ?thesis by auto
qed

lemma enrollmentEvent_fresh:
  assumes "enrollmentEvent h ev (u, st) = (u', st')"
  shows "\<forall>p \<in> set (passengers st'). p \<in> set (passengers st) \<or>
           checkpoints p = \<lparr> security = False, immigration = False, boarding = False \<rparr> \<and>
           (formChecked u \<longrightarrow> requiredPresent p)"
proof -
  from enrollmentEvent_store[OF assms] show ?thesis
  proof
    assume "st' = st"
    then show ?thesis by simp
  next
    assume "\<exists>p. ev = CompleteEnrollment \<and> currentStep u = Complete \<and> \<not> isProcessing u \<and>
              u' = initialEnrollment \<and> completeEnrollment h u st = (Some p, st')"
    then obtain p where st: "currentStep u = Complete"
      and s: "completeEnrollment h u st = (Some p, st')" by blast
    have "set (passengers st') \<subseteq> insert p (set (passengers st))"
      using completeEnrollment_Some(1)[OF s] by (rule savePassengerData_Inr(4))
    moreover have "checkpoints p = \<lparr> security = False, immigration = False, boarding = False \<rparr>"
      by (rule completeEnrollment_Some(6)[OF s])
    moreover have "requiredPresent p" if "formChecked u"
      using completeEnrollment_Some(2-5)[OF s] that st
      by (simp add: formChecked_def requiredPresent_def continueDisabled_def)
    ultimately show ?thesis by auto
  qed
qed

lemma enrollmentRun_fresh:
  assumes "enrollmentRun evs (u, st) = (u', st')"
  shows "\<forall>p \<in> set (passengers st'). p \<in> set (passengers st) \<or>
           checkpoints p = \<lparr> security = False, immigration = False, boarding = False \<rparr>"
  using assms
proof (induction evs arbitrary: u st)
  case Nil
  then show ?case by simp
next
  case (Cons e evs)
  obtain h ev where e: "e = (h, ev)" by (cases e) auto
  obtain u1 st1 where s: "enrollmentEvent h ev (u, st) = (u1, st1)"
    by (cases "enrollmentEvent h ev (u, st)") auto
  from Cons.prems e s have "enrollmentRun evs (u1, st1) = (u', st')" by simp
  from Cons.IH[OF this] enrollmentEvent_fresh[OF s] show ?case by blast
qed

lemma enrollmentRun_invariant:
  assumes "orderly u" "unhurried evs (u, st)" "enrollmentRun evs (u, st) = (u', st')"
  shows "orderly u' \<and>
         (\<forall>p \<in> set (passengers st'). p \<in> set (passengers st) \<or> freshlyEnrolled p)"
  using assms
proof (induction evs arbitrary: u st)
  case Nil
  then show ?case by simp
next
  case (Cons e evs)
  obtain h ev where e: "e = (h, ev)" by (cases e) auto
  obtain u1 st1 where s: "enrollmentEvent h ev (u, st) = (u1, st1)"
    by (cases "enrollmentEvent h ev (u, st)") auto
  from Cons.prems(2) e s have q: "ev = ChooseFingerprint \<longrightarrow> \<not> isProcessing u"
    and n: "unhurried evs (u1, st1)" by simp_all
  have o: "orderly u1" using Cons.prems(1) q s by (rule enrollmentEvent_orderly)
  have "formChecked u" using Cons.prems(1) by (simp add: orderly_def)
  with enrollmentEvent_fresh[OF s]
  have 1: "\<forall>p \<in> set (passengers st1). p \<in> set (passengers st) \<or> freshlyEnrolled p"
    by (auto simp: freshlyEnrolled_def)
  from Cons.prems(3) e s have "enrollmentRun evs (u1, st1) = (u', st')" by simp
  from Cons.IH[OF o n this] 1 show ?case by blast
qed

text \<open>
  Claim C7, as the code has it. In a run of the component from the initial form in
  which no fingerprint file is chosen while a scan is being processed, every record in
  the store was there before or has first name, last name, passport number and flight
  number non-empty: while one of the four is empty the form cannot be left, so nothing
  is created. In any run the records created have all three checkpoints false. The
  departure time is not among the fields tested. At the last step, with both scans
  present and the write succeeding, \<^verbatim>\<open>completeEnrollment\<close> creates the record from the
  form, with the id \<^verbatim>\<open>TRU-\<close> followed by the generated UUID, the enrollment time read
  from the clock and all checkpoints false, and stores it. Unique ids stay unique; and
  when the generated id is fresh, carried by no stored record, the record is appended
  and every stored record is kept. Without a scan, or when the write fails, nothing is
  stored.
\<close>

theorem enrollment_requires_identity_fields:
  "(unhurried evs (initialEnrollment, st) \<longrightarrow>
      (\<forall>p \<in> set (passengers (snd (enrollmentRun evs (initialEnrollment, st)))).
         p \<in> set (passengers st) \<or>
         (firstName p \<noteq> [] \<and> lastName p \<noteq> [] \<and> passportNumber p \<noteq> [] \<and> flightNumber p \<noteq> [] \<and>
          checkpoints p = \<lparr> security = False, immigration = False, boarding = False \<rparr>))) \<and>
   (\<forall>p \<in> set (passengers (snd (enrollmentRun evs (initialEnrollment, st)))).
      p \<in> set (passengers st) \<or>
      checkpoints p = \<lparr> security = False, immigration = False, boarding = False \<rparr>) \<and>
   (currentStep u = Info \<and> continueDisabled (formData u) \<longrightarrow>
      enrollmentEvent h ContinueToFaceScan (u, st0) = (u, st0) \<and>
      enrollmentEvent h CompleteEnrollment (u, st0) = (u, st0)) \<and>
   (faceData u = Some fd \<and> fingerprintHash_e u = Some fph \<and> fph \<noteq> [] \<and> setItem_passengers h \<longrightarrow>
      (\<exists>p st'. completeEnrollment h u st0 = (Some p, st') \<and>
         id_p p = ''TRU-'' @ randomUUID h \<and> enrollmentTime p = Date_now h \<and>
         checkpoints p = \<lparr> security = False, immigration = False, boarding = False \<rparr> \<and>
         firstName p = firstName_f (formData u) \<and> lastName p = lastName_f (formData u) \<and>
         passportNumber p = passportNumber_f (formData u) \<and>
         flightNumber p = flightNumber_f (formData u) \<and> gate p = gate_f (formData u) \<and>
         departureTime p = departureTime_f (formData u) \<and>
         faceHash (biometrics p) = hash fd \<and> fingerprintHash (biometrics p) = fph \<and>
         faceEmbedding (biometrics p) = Some (embedding fd) \<and>
         p \<in> set (passengers st') \<and> staff_logs st' = staff_logs st0 \<and>
         (distinct (map id_p (passengers st0)) \<longrightarrow> distinct (map id_p (passengers st'))) \<and>
         ((\<forall>q \<in> set (passengers st0). id_p q \<noteq> ''TRU-'' @ randomUUID h) \<longrightarrow>
            passengers st' = passengers st0 @ [p]))) \<and>
   (faceData u = None \<or> fingerprintHash_e u = None \<or> fingerprintHash_e u = Some [] \<or>
      \<not> setItem_passengers h \<longrightarrow>
      completeEnrollment h u st0 = (None, st0))"
proof (intro conjI impI)
  obtain u' st' where r: "enrollmentRun evs (initialEnrollment, st) = (u', st')"
    by (cases "enrollmentRun evs (initialEnrollment, st)") auto
  {
    assume "unhurried evs (initialEnrollment, st)"
    from enrollmentRun_invariant[OF orderly_initial this r]
    show "\<forall>p \<in> set (passengers (snd (enrollmentRun evs (initialEnrollment, st)))).
        p \<in> set (passengers st) \<or>
        (firstName p \<noteq> [] \<and> lastName p \<noteq> [] \<and> passportNumber p \<noteq> [] \<and> flightNumber p \<noteq> [] \<and>
         checkpoints p = \<lparr> security = False, immigration = False, boarding = False \<rparr>)"
      by (simp add: r freshlyEnrolled_def requiredPresent_def)
  }
  from enrollmentRun_fresh[OF r]
  show "\<forall>p \<in> set (passengers (snd (enrollmentRun evs (initialEnrollment, st)))).
      p \<in> set (passengers st) \<or>
      checkpoints p = \<lparr> security = False, immigration = False, boarding = False \<rparr>"
    by (simp add: r)
next
  assume "currentStep u = Info \<and> continueDisabled (formData u)"
  then show "enrollmentEvent h ContinueToFaceScan (u, st0) = (u, st0)"
    and "enrollmentEvent h CompleteEnrollment (u, st0) = (u, st0)"
    by simp_all
next
  assume a: "faceData u = Some fd \<and> fingerprintHash_e u = Some fph \<and> fph \<noteq> [] \<and> setItem_passengers h"
  with completeEnrollment_ready[of u fd fph h st0] obtain p st' where
    c: "completeEnrollment h u st0 = (Some p, st')" and
    p: "p = \<lparr> id_p = ''TRU-'' @ randomUUID h,
                   passportNumber = passportNumber_f (formData u),
                   firstName = firstName_f (formData u),
                   lastName = lastName_f (formData u),
                   flightNumber = flightNumber_f (formData u),
                   gate = gate_f (formData u),
                   departureTime = departureTime_f (formData u),
                   biometrics = \<lparr> faceHash = hash fd, fingerprintHash = fph,
                                   faceEmbedding = Some (embedding fd), timestamp = now h \<rparr>,
                   enrollmentTime = Date_now h,
                   checkpoints = \<lparr> security = False, immigration = False, boarding = False \<rparr>,
                   guardianId = None \<rparr>"
    by blast
  note v = completeEnrollment_Some(1)[OF c]
  note s = savePassengerData_Inr[OF v]
  have d: "distinct (map id_p (passengers st0)) \<longrightarrow> distinct (map id_p (passengers st'))"
    using v by (auto intro: savePassengerData_distinct)
  have i: "id_p p = ''TRU-'' @ randomUUID h" by (simp add: p)
  have f: "(\<forall>q \<in> set (passengers st0). id_p q \<noteq> ''TRU-'' @ randomUUID h) \<longrightarrow>
            passengers st' = passengers st0 @ [p]"
    using s(5) unfolding i .
  show "\<exists>p st'. completeEnrollment h u st0 = (Some p, st') \<and>
         id_p p = ''TRU-'' @ randomUUID h \<and> enrollmentTime p = Date_now h \<and>
         checkpoints p = \<lparr> security = False, immigration = False, boarding = False \<rparr> \<and>
         firstName p = firstName_f (formData u) \<and> lastName p = lastName_f (formData u) \<and>
         passportNumber p = passportNumber_f (formData u) \<and>
         flightNumber p = flightNumber_f (formData u) \<and> gate p = gate_f (formData u) \<and>
         departureTime p = departureTime_f (formData u) \<and>
         faceHash (biometrics p) = hash fd \<and> fingerprintHash (biometrics p) = fph \<and>
         faceEmbedding (biometrics p) = Some (embedding fd) \<and>
         p \<in> set (passengers st') \<and> staff_logs st' = staff_logs st0 \<and>
         (distinct (map id_p (passengers st0)) \<longrightarrow> distinct (map id_p (passengers st'))) \<and>
         ((\<forall>q \<in> set (passengers st0). id_p q \<noteq> ''TRU-'' @ randomUUID h) \<longrightarrow>
            passengers st' = passengers st0 @ [p])"
    apply (rule exI[of _ p], rule exI[of _ st'])
    using c s(2,3) d f by (simp add: p)
next
  assume "faceData u = None \<or> fingerprintHash_e u = None \<or> fingerprintHash_e u = Some [] \<or>
      \<not> setItem_passengers h"
  then show "completeEnrollment h u st0 = (None, st0)"
    by (auto simp: completeEnrollment_def savePassengerData_def Let_def split: option.splits)
qed

lemma enrollmentOf_ready:
  "enrollmentRun (butlast (enrollmentOf dep)) (initialEnrollment, emptyStore)
     = (readyEnrollment dep, emptyStore)"
  by (simp add: enrollmentOf_def initialEnrollment_def readyEnrollment_def continueDisabled_def)

lemma complete_ready:
  "completeEnrollment exampleHost (readyEnrollment dep) emptyStore
     = (Some (enrolled dep), emptyStore\<lparr>passengers := [enrolled dep]\<rparr>)"
  by (simp add: completeEnrollment_def savePassengerData_def readyEnrollment_def emptyStore_def
      enrolled_def exampleHost_def Let_def)

lemma enrollmentRun_append:
  "enrollmentRun (xs @ ys) s = enrollmentRun ys (enrollmentRun xs s)"
proof (induction xs arbitrary: s)
  case Nil
  show ?case by simp
next
  case (Cons x xs)
  obtain h ev where "x = (h, ev)" by (cases x) auto
  with Cons.IH[of "enrollmentEvent h ev s"] show ?case by simp
qed

lemma enrollmentOf_run:
  "enrollmentRun (enrollmentOf dep) (initialEnrollment, emptyStore)
     = (initialEnrollment, emptyStore\<lparr>passengers := [enrolled dep]\<rparr>)"
proof -
  have "enrollmentOf dep = butlast (enrollmentOf dep) @ [(exampleHost, CompleteEnrollment)]"
    by (simp add: enrollmentOf_def)
  then have "enrollmentRun (enrollmentOf dep) (initialEnrollment, emptyStore)
               = enrollmentEvent exampleHost CompleteEnrollment (readyEnrollment dep, emptyStore)"
    using enrollmentRun_append[of "butlast (enrollmentOf dep)" "[(exampleHost, CompleteEnrollment)]"
        "(initialEnrollment, emptyStore)"]
    by (simp add: enrollmentOf_ready)
  also have "\<dots> = (initialEnrollment, emptyStore\<lparr>passengers := [enrolled dep]\<rparr>)"
    by (simp add: complete_ready) (simp add: readyEnrollment_def)
  finally show ?thesis .
qed

lemma enrollmentOf_unhurried: "unhurried (enrollmentOf dep) (initialEnrollment, emptyStore)"
  by (simp add: enrollmentOf_def initialEnrollment_def continueDisabled_def)

text \<open>The run with two uploads at once: the form before the last action, and the outcome.\<close>

lemma overlappingUploads_ready:
  "enrollmentRun (butlast overlappingUploads) (initialEnrollment, emptyStore)
     = ((readyEnrollment ''2030-01-01T10:00'')
          \<lparr>formData := (formData (readyEnrollment ''2030-01-01T10:00''))\<lparr>firstName_f := []\<rparr>\<rparr>,
        emptyStore)"
  by (simp add: overlappingUploads_def initialEnrollment_def readyEnrollment_def
      continueDisabled_def)

lemma overlappingUploads_run:
  "enrollmentRun overlappingUploads (initialEnrollment, emptyStore)
     = (initialEnrollment, emptyStore\<lparr>passengers := [nameless]\<rparr>)"
proof -
  let ?u = "(readyEnrollment ''2030-01-01T10:00'')
          \<lparr>formData := (formData (readyEnrollment ''2030-01-01T10:00''))\<lparr>firstName_f := []\<rparr>\<rparr>"
  have "overlappingUploads = butlast overlappingUploads @ [(exampleHost, CompleteEnrollment)]"
    by (simp add: overlappingUploads_def)
  then have "enrollmentRun overlappingUploads (initialEnrollment, emptyStore)
               = enrollmentEvent exampleHost CompleteEnrollment (?u, emptyStore)"
    using enrollmentRun_append[of "butlast overlappingUploads" "[(exampleHost, CompleteEnrollment)]"
        "(initialEnrollment, emptyStore)"]
    by (simp add: overlappingUploads_ready)
  also have "\<dots> = (initialEnrollment, emptyStore\<lparr>passengers := [nameless]\<rparr>)"
    by (simp add: completeEnrollment_def savePassengerData_def readyEnrollment_def emptyStore_def
        enrolled_def nameless_def exampleHost_def Let_def)
  finally show ?thesis .
qed

lemma overlappingUploads_hurried: "\<not> unhurried overlappingUploads (initialEnrollment, emptyStore)"
  by (simp add: overlappingUploads_def initialEnrollment_def continueDisabled_def)

theorem enrollment_requires_identity_fields_witness:
  "unhurried (enrollmentOf ''2030-01-01T00:00'') (initialEnrollment, emptyStore) \<and>
   enrollmentRun (enrollmentOf ''2030-01-01T00:00'') (initialEnrollment, emptyStore)
     = (initialEnrollment, emptyStore\<lparr>passengers := [enrolled ''2030-01-01T00:00'']\<rparr>) \<and>
   enrolled ''2030-01-01T00:00'' \<notin> set (passengers emptyStore) \<and>
   firstName (enrolled ''2030-01-01T00:00'') \<noteq> [] \<and>
   lastName (enrolled ''2030-01-01T00:00'') \<noteq> [] \<and>
   passportNumber (enrolled ''2030-01-01T00:00'') \<noteq> [] \<and>
   flightNumber (enrolled ''2030-01-01T00:00'') \<noteq> [] \<and>
   checkpoints (enrolled ''2030-01-01T00:00'')
     = \<lparr> security = False, immigration = False, boarding = False \<rparr> \<and>
   currentStep initialEnrollment = Info \<and> continueDisabled (formData initialEnrollment) \<and>
   enrollmentEvent exampleHost ContinueToFaceScan (initialEnrollment, emptyStore)
     = (initialEnrollment, emptyStore) \<and>
   setItem_passengers exampleHost \<and>
   distinct (map id_p (passengers emptyStore)) \<and>
   list_all (\<lambda>q. id_p q \<noteq> ''TRU-'' @ randomUUID exampleHost) (passengers emptyStore) \<and>
   completeEnrollment exampleHost (readyEnrollment ''2030-01-01T00:00'') emptyStore
     = (Some (enrolled ''2030-01-01T00:00''),
        emptyStore\<lparr>passengers := passengers emptyStore @ [enrolled ''2030-01-01T00:00'']\<rparr>) \<and>
   faceData initialEnrollment = None \<and>
   completeEnrollment exampleHost initialEnrollment emptyStore = (None, emptyStore)"
proof -
  let ?d = "''2030-01-01T00:00''"
  note t = enrollment_requires_identity_fields[of "enrollmentOf ?d" emptyStore initialEnrollment
      exampleHost emptyStore]
  have i: "currentStep initialEnrollment = Info" "continueDisabled (formData initialEnrollment)"
    "faceData initialEnrollment = None"
    by (simp_all add: initialEnrollment_def continueDisabled_def)
  have e: "enrolled ?d \<notin> set (passengers emptyStore)" "distinct (map id_p (passengers emptyStore))"
    "list_all (\<lambda>q. id_p q \<noteq> ''TRU-'' @ randomUUID exampleHost) (passengers emptyStore)"
    by (simp_all add: emptyStore_def)
  have "enrolled ?d \<in> set (passengers (snd (enrollmentRun (enrollmentOf ?d) (initialEnrollment, emptyStore))))"
    by (simp add: enrollmentOf_run)
  with t e(1) enrollmentOf_unhurried[of ?d]
  have f: "firstName (enrolled ?d) \<noteq> []" "lastName (enrolled ?d) \<noteq> []"
    "passportNumber (enrolled ?d) \<noteq> []" "flightNumber (enrolled ?d) \<noteq> []"
    "checkpoints (enrolled ?d) = \<lparr> security = False, immigration = False, boarding = False \<rparr>"
    by blast+
  have c: "enrollmentEvent exampleHost ContinueToFaceScan (initialEnrollment, emptyStore)
     = (initialEnrollment, emptyStore)"
    using t i by blast
  have n: "completeEnrollment exampleHost initialEnrollment emptyStore = (None, emptyStore)"
    using t i by blast
  have w: "setItem_passengers exampleHost" by (simp add: exampleHost_def)
  have r: "faceData (readyEnrollment ?d) = Some \<lparr> hash = ''h1'', embedding = [9, 3, 3, 1] \<rparr>"
    "fingerprintHash_e (readyEnrollment ?d) = Some ''f1''" "''f1'' \<noteq> []"
    by (simp_all add: readyEnrollment_def)
  have fr: "\<forall>q \<in> set (passengers emptyStore). id_p q \<noteq> ''TRU-'' @ randomUUID exampleHost"
    by (simp add: emptyStore_def)
  from enrollment_requires_identity_fields[of "[]" emptyStore "readyEnrollment ?d" exampleHost
      emptyStore "\<lparr> hash = ''h1'', embedding = [9, 3, 3, 1] \<rparr>" "''f1''"] r w fr
  obtain p st' where "completeEnrollment exampleHost (readyEnrollment ?d) emptyStore = (Some p, st')"
    "passengers st' = passengers emptyStore @ [p]"
    by blast
  then have k: "completeEnrollment exampleHost (readyEnrollment ?d) emptyStore
     = (Some (enrolled ?d), emptyStore\<lparr>passengers := passengers emptyStore @ [enrolled ?d]\<rparr>)"
    by (simp add: complete_ready) (simp add: emptyStore_def)
  from enrollmentOf_unhurried[of ?d] enrollmentOf_run[of ?d] e f i c w k n show ?thesis by simp
qed

text \<open>
  Two enrollments that are not rejected. With the departure field left empty, which no
  date parses, the record is created and stored. And when a second fingerprint file is
  chosen while the first is being processed, the visitor can empty the first name
  before the second upload shows the last step: the record stored has no first name.
\<close>

theorem enrollment_not_rejected_counterexample:
  "departureTime_f (formData (readyEnrollment [])) = [] \<and>
   Date_parse exampleHost [] = None \<and>
   enrollmentRun (enrollmentOf []) (initialEnrollment, emptyStore)
     = (initialEnrollment, emptyStore\<lparr>passengers := [enrolled []]\<rparr>) \<and>
   departureTime (enrolled []) = [] \<and>
   \<not> unhurried overlappingUploads (initialEnrollment, emptyStore) \<and>
   enrollmentRun overlappingUploads (initialEnrollment, emptyStore)
     = (initialEnrollment, emptyStore\<lparr>passengers := [nameless]\<rparr>) \<and>
   firstName nameless = []"
  by (simp add: enrollmentOf_run overlappingUploads_run overlappingUploads_hurried)
     (simp add: readyEnrollment_def exampleHost_def enrolled_def nameless_def)

section \<open>Unique ids\<close>

text \<open>
  The ids of the stored records are pairwise different in the empty store, and every
  operation that writes the store keeps them so: all stores the application builds have
  unique ids.
\<close>

lemma processVerification_ids:
  "map id_p (passengers (snd (processVerification h cp fh emb fp st))) = map id_p (passengers st)"
proof (cases "outcome_of (fst (processVerification h cp fh emb fp st)) = GRANTED")
  case False
  then show ?thesis by (simp add: not_granted_unchanged)
next
  case True
  from granted_branch[OF True] obtain best sim where
    s: "selectBest fh emb fp (findPassengersByBiometrics fh fp st) = Some (best, sim)" and
    p: "processVerification h cp fh emb fp st = (grantedResult best sim, grantEffect h cp best sim st)"
    by blast
  from granted_store[OF s, of h cp] obtain i where
    i: "findIndex (\<lambda>q. id_p q = id_p best) (passengers st) = Some i"
      "passengers (grantEffect h cp best sim st) =
             (if setItem_passengers h
              then (passengers st)[i := withCheckpoint cp True (passengers st ! i)]
              else passengers st)"
    by blast
  have "i < length (passengers st)" using i(1) by (simp add: findIndex_Some_iff)
  then show ?thesis by (simp add: p i(2) map_id_p_update)
qed

lemma processVerification_distinct:
  "distinct (map id_p (passengers st)) \<Longrightarrow>
   distinct (map id_p (passengers (snd (processVerification h cp fh emb fp st))))"
  by (simp add: processVerification_ids)

lemma deletePassengerData_distinct:
  "distinct (map id_p (passengers st)) \<Longrightarrow>
   distinct (map id_p (passengers (snd (deletePassengerData h pid st))))"
  by (simp add: deletePassengerData_def Let_def distinct_map_filter)

lemma cleanupExpiredPassengers_distinct:
  "distinct (map id_p (passengers st)) \<Longrightarrow>
   distinct (map id_p (passengers (snd (cleanupExpiredPassengers h st))))"
  by (simp add: cleanup_eq distinct_map_filter)

lemma enrollmentEvent_distinct:
  assumes "distinct (map id_p (passengers st))"
  shows "distinct (map id_p (passengers (snd (enrollmentEvent h ev (u, st)))))"
proof (cases "ev = CompleteEnrollment \<and> currentStep u = Complete \<and> \<not> isProcessing u")
  case False
  with assms show ?thesis by (cases ev) (auto split: step.splits option.splits)
next
  case True
  obtain r st1 where c: "completeEnrollment h u st = (r, st1)"
    by (cases "completeEnrollment h u st") auto
  have "distinct (map id_p (passengers st1))"
  proof (cases r)
    case None
    with c have "st1 = st" by (simp add: completeEnrollment_None)
    with assms show ?thesis by simp
  next
    case (Some p)
    with c have "savePassengerData h p st = Inr st1"
      by (simp add: completeEnrollment_Some(1))
    with assms show ?thesis by (rule savePassengerData_distinct)
  qed
  with True c show ?thesis by (cases r) simp_all
qed

lemma enrollmentRun_distinct:
  "distinct (map id_p (passengers st)) \<Longrightarrow>
   distinct (map id_p (passengers (snd (enrollmentRun evs (u, st)))))"
proof (induction evs arbitrary: u st)
  case Nil
  then show ?case by simp
next
  case (Cons e evs)
  obtain h ev where e: "e = (h, ev)" by (cases e) auto
  obtain u1 st1 where s: "enrollmentEvent h ev (u, st) = (u1, st1)"
    by (cases "enrollmentEvent h ev (u, st)") auto
  have "distinct (map id_p (passengers st1))"
    using enrollmentEvent_distinct[OF Cons.prems, of h ev u] s by simp
  from Cons.IH[OF this, of u1] e s show ?case by simp
qed

end
